theory Spec2Isabelle
  imports Complex_Main "HOL-Library.Sublist"
begin

section \<open>Constants (constants.py)\<close>

definition MAX_TOKENS_PER_REQUEST :: nat where
  "MAX_TOKENS_PER_REQUEST = 400"

definition MAX_RETRIES :: nat where
  "MAX_RETRIES = 10"

definition RETRY_DELAY :: rat where
  "RETRY_DELAY = 1"

definition QUOTA_EXHAUST_ERROR_DELAY :: rat where
  "QUOTA_EXHAUST_ERROR_DELAY = 10"

definition REQUEST_DELAY :: rat where
  "REQUEST_DELAY = 1 / 2"

definition TRANSLATION_DELIMITER :: string where
  "TRANSLATION_DELIMITER = ''|//|''"

definition CHARS_PER_TOKEN :: nat where
  "CHARS_PER_TOKEN = 4"

definition QUOTA_EXHAUST_ERROR :: string where
  "QUOTA_EXHAUST_ERROR = ''429 Resource has been exhausted''"

definition COUNT_MISMATCH :: string where
  "COUNT_MISMATCH = ''Translation count mismatch''"

section \<open>Token estimation and batching (processor/*.py)\<close>

text \<open>
  Strings are lists of characters; \<open>length\<close> is Python's \<open>len\<close>.
  \<open>ExcelProcessor.estimate_tokens\<close> is the integer division \<open>len(text) // CHARS_PER_TOKEN\<close>.
\<close>

definition ExcelProcessor_estimate_tokens :: "string \<Rightarrow> nat" where
  "ExcelProcessor_estimate_tokens text = length text div CHARS_PER_TOKEN"

text \<open>
  \<open>DocxProcessor.estimate_tokens\<close> is \<open>math.ceil(len(text) / CHARS_PER_TOKEN)\<close> when the
  constant is positive and \<open>len(text)\<close> otherwise. The quotient is taken exactly (the float
  division by 4 is exact for every length below \<open>2^53\<close>).
\<close>

definition DocxProcessor_estimate_tokens :: "string \<Rightarrow> nat" where
  "DocxProcessor_estimate_tokens text =
     (if CHARS_PER_TOKEN > 0
      then nat \<lceil>(of_nat (length text) :: rat) / of_nat CHARS_PER_TOKEN\<rceil>
      else length text)"

text \<open>
  \<open>DocxProcessor.create_batches\<close>: the loop state is
  \<open>(batches, current_batch, current_token_count)\<close>.
\<close>

fun DocxProcessor_batch_loop ::
  "(nat \<times> string) list \<Rightarrow> (nat \<times> string) list list \<times> (nat \<times> string) list \<times> nat
     \<Rightarrow> (nat \<times> string) list list \<times> (nat \<times> string) list \<times> nat" where
  "DocxProcessor_batch_loop [] s = s"
| "DocxProcessor_batch_loop ((index, text) # rest) (batches, current_batch, current_token_count) =
     (let token_count = DocxProcessor_estimate_tokens text;
          (batches1, current_batch1, current_token_count1) =
             (if current_token_count + token_count > MAX_TOKENS_PER_REQUEST \<and> current_batch \<noteq> []
              then (batches @ [current_batch], [], 0)
              else (batches, current_batch, current_token_count))
      in DocxProcessor_batch_loop rest
           (batches1, current_batch1 @ [(index, text)], current_token_count1 + token_count))"

definition DocxProcessor_create_batches :: "(nat \<times> string) list \<Rightarrow> (nat \<times> string) list list" where
  "DocxProcessor_create_batches items_with_indices =
     (case DocxProcessor_batch_loop items_with_indices ([], [], 0) of
        (batches, current_batch, current_token_count) \<Rightarrow>
          if current_batch \<noteq> [] then batches @ [current_batch] else batches)"

text \<open>
  \<open>ExcelProcessor.create_batches\<close>: each text is estimated together with the delimiter.
\<close>

fun ExcelProcessor_batch_loop ::
  "string list \<Rightarrow> string list list \<times> string list \<times> nat
     \<Rightarrow> string list list \<times> string list \<times> nat" where
  "ExcelProcessor_batch_loop [] s = s"
| "ExcelProcessor_batch_loop (text # rest) (batches, current_batch, current_tokens) =
     (let text_tokens = ExcelProcessor_estimate_tokens (text @ TRANSLATION_DELIMITER)
      in if current_tokens + text_tokens > MAX_TOKENS_PER_REQUEST
         then ExcelProcessor_batch_loop rest
                ((if current_batch \<noteq> [] then batches @ [current_batch] else batches),
                 [text], text_tokens)
         else ExcelProcessor_batch_loop rest
                (batches, current_batch @ [text], current_tokens + text_tokens))"

definition ExcelProcessor_create_batches :: "string list \<Rightarrow> string list list" where
  "ExcelProcessor_create_batches texts =
     (case ExcelProcessor_batch_loop texts ([], [], 0) of
        (batches, current_batch, current_tokens) \<Rightarrow>
          if current_batch \<noteq> [] then batches @ [current_batch] else batches)"

section \<open>The translator (translators.py)\<close>

subsection \<open>The remote service and the translator's state\<close>

text \<open>
  One request to the remote model, followed by \<open>json.loads\<close>, ends in one of three ways:
  a JSON list of strings (of any length), a \<open>ValueError\<close> (which includes
  \<open>json.JSONDecodeError\<close>) with its message, or any other exception with its message.
  The request asks for the schema \<open>list[str]\<close>; an answer that parses to another JSON
  value is not part of this model.
\<close>

datatype response =
    Json "string list"
  | RaiseValueError string
  | RaiseException string

text \<open>
  The service is a deterministic machine with a hidden state of type \<open>'s\<close>: it receives the
  texts of the prompt and the target language.
\<close>

type_synonym 's model = "'s \<Rightarrow> string list \<Rightarrow> string \<Rightarrow> response \<times> 's"

datatype event = Request "string list" string | Sleep rat

record 's translator =
  translation_cache :: "string \<times> string \<Rightarrow> string option"
  remote :: 's
  events :: "event list"

datatype error = TypeError | IndexError

definition sleep :: "rat \<Rightarrow> 's translator \<Rightarrow> 's translator" where
  "sleep d st = st\<lparr>events := events st @ [Sleep d]\<rparr>"

definition generate_content ::
  "'s model \<Rightarrow> string list \<Rightarrow> string \<Rightarrow> 's translator \<Rightarrow> response \<times> 's translator" where
  "generate_content model texts target_lang st =
     (case model (remote st) texts target_lang of
        (resp, r) \<Rightarrow> (resp, st\<lparr>remote := r, events := events st @ [Request texts target_lang]\<rparr>))"

subsection \<open>Text normalisation\<close>

text \<open>
  \<open>re.sub(c+, c, text)\<close> for a single character \<open>c\<close>: every run of \<open>c\<close> becomes one \<open>c\<close>.
\<close>

fun collapse_runs :: "char \<Rightarrow> string \<Rightarrow> string" where
  "collapse_runs c [] = []"
| "collapse_runs c [x] = [x]"
| "collapse_runs c (x # y # zs) =
     (if x = c \<and> y = c then collapse_runs c (y # zs) else x # collapse_runs c (y # zs))"

text \<open>
  The characters \<open>str.strip()\<close> removes, among the code points below 256:
  tab, line feed, vertical tab, form feed, carriage return, the separators 28 to 31,
  space, NEL (133) and the no-break space (160).
\<close>

definition isspace :: "char \<Rightarrow> bool" where
  "isspace c = ((of_char c :: nat) \<in> {9, 10, 11, 12, 13, 28, 29, 30, 31, 32, 133, 160})"

definition strip :: "string \<Rightarrow> string" where
  "strip s = rev (dropWhile isspace (rev (dropWhile isspace s)))"

definition preprocess_text :: "string \<Rightarrow> string" where
  "preprocess_text text =
     strip (collapse_runs (CHR 0x09) (collapse_runs (CHR 0x0A) text))"

subsection \<open>The cache lookup\<close>

text \<open>
  \<open>_get_cached_translations\<close>: the loop over \<open>enumerate(texts)\<close>, with the loop state
  \<open>(uncached_indices, uncached_texts, translations)\<close>; \<open>translations\<close> is the caller's list,
  updated in place.
\<close>

fun get_cached_loop ::
  "(string \<times> string \<Rightarrow> string option) \<Rightarrow> string \<Rightarrow> nat \<Rightarrow> string list
     \<Rightarrow> nat list \<times> string list \<times> string option list
     \<Rightarrow> nat list \<times> string list \<times> string option list" where
  "get_cached_loop cache target_lang i [] s = s"
| "get_cached_loop cache target_lang i (text # rest) (uncached_indices, uncached_texts, translations) =
     (case cache (text, target_lang) of
        Some v \<Rightarrow>
          get_cached_loop cache target_lang (Suc i) rest
            (uncached_indices, uncached_texts, translations[i := Some v])
      | None \<Rightarrow>
          get_cached_loop cache target_lang (Suc i) rest
            (uncached_indices @ [i], uncached_texts @ [text], translations))"

definition get_cached_translations ::
  "(string \<times> string \<Rightarrow> string option) \<Rightarrow> string list \<Rightarrow> string \<Rightarrow> string option list
     \<Rightarrow> nat list \<times> string list \<times> string option list" where
  "get_cached_translations cache texts target_lang translations =
     get_cached_loop cache target_lang 0 texts ([], [], translations)"

subsection \<open>The remote call with retries and splitting\<close>

text \<open>
  The body of the \<open>try\<close> block after the request: a parsed list is followed by
  \<open>sleep(REQUEST_DELAY)\<close> and by the count check, which raises a \<open>ValueError\<close> whose
  message starts with the mismatch text; an exception of the request is passed on.
\<close>

definition try_block ::
  "string list \<Rightarrow> response \<times> 's translator \<Rightarrow> response \<times> 's translator" where
  "try_block texts r =
     (case r of
        (Json new_translations, st) \<Rightarrow>
          (if length new_translations \<noteq> length texts
           then (RaiseValueError (COUNT_MISMATCH @ '': expected n, got m''), sleep REQUEST_DELAY st)
           else (Json new_translations, sleep REQUEST_DELAY st))
      | (RaiseValueError msg, st) \<Rightarrow> (RaiseValueError msg, st)
      | (RaiseException msg, st) \<Rightarrow> (RaiseException msg, st))"

text \<open>
  \<open>first_half + second_half\<close>: the concatenation of two lists; a \<open>TypeError\<close> when either
  operand is \<open>None\<close>.
\<close>

fun concat_halves :: "string list option \<Rightarrow> string list option \<Rightarrow> error + string list option" where
  "concat_halves (Some a) (Some b) = Inr (Some (a @ b))"
| "concat_halves _ _ = Inl TypeError"

text \<open>
  \<open>_call_translation_api\<close>. The first argument bounds the number of nested calls and loop
  iterations: the result \<open>None\<close> means that the bound was reached before the call returned.
  A returned value is \<open>Inr (Some xs)\<close> for a list, \<open>Inr None\<close> for Python's \<open>None\<close>, and
  \<open>Inl e\<close> for an exception that leaves the function. \<open>attempt\<close> is the loop variable of
  \<open>for attempt in range(MAX_RETRIES)\<close>; a call from outside starts at 0.
\<close>

fun call_translation_api ::
  "'s model \<Rightarrow> nat \<Rightarrow> nat \<Rightarrow> string list \<Rightarrow> string \<Rightarrow> 's translator
     \<Rightarrow> ((error + string list option) \<times> 's translator) option" where
  "call_translation_api model 0 attempt texts target_lang st = None"
| "call_translation_api model (Suc fuel) attempt texts target_lang st =
     (if attempt \<ge> MAX_RETRIES then Some (Inr None, st)
      else
        (case try_block texts (generate_content model texts target_lang st) of
           (Json new_translations, st1) \<Rightarrow> Some (Inr (Some new_translations), st1)
         | (RaiseValueError e, st1) \<Rightarrow>
             (if sublist COUNT_MISMATCH e
              then
                (case call_translation_api model fuel 0
                        (take (length texts div 2) texts) target_lang st1 of
                   None \<Rightarrow> None
                 | Some (Inl err, st2) \<Rightarrow> Some (Inl err, st2)
                 | Some (Inr first_half, st2) \<Rightarrow>
                     (case call_translation_api model fuel 0
                             (drop (length texts div 2) texts) target_lang st2 of
                        None \<Rightarrow> None
                      | Some (Inl err, st3) \<Rightarrow> Some (Inl err, st3)
                      | Some (Inr second_half, st3) \<Rightarrow>
                          Some (concat_halves first_half second_half, st3)))
              else Some (Inr (Some (replicate (length texts) [])), st1))
         | (RaiseException e, st1) \<Rightarrow>
             (let st2 = (if sublist QUOTA_EXHAUST_ERROR e
                         then sleep QUOTA_EXHAUST_ERROR_DELAY st1 else st1)
              in if attempt = MAX_RETRIES - 1 then Some (Inr None, st2)
                 else call_translation_api model fuel (Suc attempt) texts target_lang
                        (sleep RETRY_DELAY st2))))"

subsection \<open>Storing results and the fallback\<close>

text \<open>
  The loop \<open>for i, translated_text in enumerate(new_translations)\<close> of \<open>translate_batch\<close>:
  it reads \<open>uncached_indices[i]\<close> and \<open>uncached_texts[i]\<close>, which raises \<open>IndexError\<close> when
  the new translations outnumber them.
\<close>

fun store_translations ::
  "string \<Rightarrow> nat list \<Rightarrow> string list \<Rightarrow> string list
     \<Rightarrow> (string \<times> string \<Rightarrow> string option) \<times> string option list
     \<Rightarrow> error + (string \<times> string \<Rightarrow> string option) \<times> string option list" where
  "store_translations target_lang uncached_indices uncached_texts [] s = Inr s"
| "store_translations target_lang (original_index # uncached_indices)
       (original_text # uncached_texts) (translated_text # new_translations) (cache, translations) =
     store_translations target_lang uncached_indices uncached_texts new_translations
       (cache((original_text, target_lang) \<mapsto> translated_text),
        translations[original_index := Some translated_text])"
| "store_translations target_lang uncached_indices uncached_texts
       (translated_text # new_translations) s = Inl IndexError"

text \<open>\<open>_handle_failed_translations\<close>: every slot that is still \<open>None\<close> gets its text.\<close>

fun handle_failed_translations ::
  "nat list \<Rightarrow> string list \<Rightarrow> string option list \<Rightarrow> string option list" where
  "handle_failed_translations [] texts translations = translations"
| "handle_failed_translations (i # uncached_indices) texts translations =
     handle_failed_translations uncached_indices texts
       (if translations ! i = None then translations[i := Some (texts ! i)] else translations)"

subsection \<open>The entry point\<close>

text \<open>
  \<open>translate_batch\<close>. The result list holds \<open>Some s\<close> for a string and \<open>None\<close> for a slot
  that is still Python's \<open>None\<close>. \<open>if new_translations:\<close> is false for \<open>None\<close> and for the
  empty list.
\<close>

definition translate_batch ::
  "'s model \<Rightarrow> nat \<Rightarrow> string list \<Rightarrow> string \<Rightarrow> 's translator
     \<Rightarrow> ((error + string option list) \<times> 's translator) option" where
  "translate_batch model fuel texts0 target_lang st =
     (if texts0 = [] then Some (Inr [], st)
      else
        (let num_texts = length texts0;
             texts = map preprocess_text texts0
         in case get_cached_translations (translation_cache st) texts target_lang
                   (replicate num_texts None) of
              (uncached_indices, uncached_texts, translations) \<Rightarrow>
                if uncached_texts \<noteq> [] then
                  (case call_translation_api model fuel 0 uncached_texts target_lang st of
                     None \<Rightarrow> None
                   | Some (Inl err, st1) \<Rightarrow> Some (Inl err, st1)
                   | Some (Inr new_translations, st1) \<Rightarrow>
                       (if new_translations \<noteq> None \<and> new_translations \<noteq> Some []
                        then
                          (case store_translations target_lang uncached_indices uncached_texts
                                  (the new_translations) (translation_cache st1, translations) of
                             Inl err \<Rightarrow> Some (Inl err, st1)
                           | Inr (cache, translations1) \<Rightarrow>
                               Some (Inr translations1, st1\<lparr>translation_cache := cache\<rparr>))
                        else
                          Some (Inr (handle_failed_translations uncached_indices texts translations),
                                st1)))
                else Some (Inr translations, st)))"


section \<open>Measures and test services used in the statements\<close>

text \<open>The summed estimated cost of a batch, as each batcher counts it.\<close>

definition DocxProcessor_batch_cost :: "(nat \<times> string) list \<Rightarrow> nat" where
  "DocxProcessor_batch_cost batch =
     sum_list (map (\<lambda>(index, text). DocxProcessor_estimate_tokens text) batch)"

definition ExcelProcessor_batch_cost :: "string list \<Rightarrow> nat" where
  "ExcelProcessor_batch_cost batch =
     sum_list (map (\<lambda>text. ExcelProcessor_estimate_tokens (text @ TRANSLATION_DELIMITER)) batch)"

definition docx_ok :: "(nat \<times> string) list \<Rightarrow> bool" where
  "docx_ok b = (length b < 2 \<or> DocxProcessor_batch_cost b \<le> MAX_TOKENS_PER_REQUEST)"

definition excel_ok :: "string list \<Rightarrow> bool" where
  "excel_ok b = (length b < 2 \<or> ExcelProcessor_batch_cost b \<le> MAX_TOKENS_PER_REQUEST)"

definition text_of_length :: "nat \<Rightarrow> char \<Rightarrow> string" where
  "text_of_length n c = replicate n c"

text \<open>The translator after \<open>__init__\<close>: an empty cache, nothing requested yet.\<close>

definition init :: "'s \<Rightarrow> 's translator" where
  "init s = \<lparr>translation_cache = Map.empty, remote = s, events = []\<rparr>"

text \<open>Mock services: a deterministic tag as the translation of a text.\<close>

definition tag :: "string \<Rightarrow> string" where
  "tag t = ''T:'' @ t"

definition tagging :: "unit model" where
  "tagging s texts target_lang = (Json (map tag texts), s)"

definition one_fewer :: "unit model" where
  "one_fewer s texts target_lang = (Json (map tag (butlast texts)), s)"

definition one_more :: "unit model" where
  "one_more s texts target_lang = (Json (''extra'' # map tag texts), s)"

definition always_transient :: "unit model" where
  "always_transient s texts target_lang = (RaiseException ''503 Service Unavailable'', s)"

definition short_then_down :: "nat model" where
  "short_then_down s texts target_lang =
     (if s = 0 then (Json [''x''], Suc s) else (RaiseException ''503 Service Unavailable'', Suc s))"

definition quota_then_ok :: "nat model" where
  "quota_then_ok s texts target_lang =
     (if s = 0 then (RaiseException ''429 Resource has been exhausted (e.g. check quota).'', Suc s)
      else (Json (map tag texts), Suc s))"

definition unparseable :: "unit model" where
  "unparseable s texts target_lang =
     (RaiseValueError ''Expecting value: line 1 column 1 (char 0)'', s)"

text \<open>
  The writes of each loop in closed form: the slots written from a list of
  (index, translation) pairs, and the cache written from a list of (text, translation)
  pairs, one write per pair, in order.
\<close>

definition write_slots :: "string option list \<Rightarrow> (nat \<times> string) list \<Rightarrow> string option list" where
  "write_slots translations zs = foldl (\<lambda>tr (i, v). tr[i := Some v]) translations zs"

definition write_cache ::
  "string \<Rightarrow> (string \<times> string \<Rightarrow> string option) \<Rightarrow> (string \<times> string) list
     \<Rightarrow> (string \<times> string \<Rightarrow> string option)" where
  "write_cache target_lang cache zs = foldl (\<lambda>c (t, v). c((t, target_lang) \<mapsto> v)) cache zs"

text \<open>A text is uncached when its key \<open>(text, target_lang)\<close> is not in the cache.\<close>

definition uncached :: "(string \<times> string \<Rightarrow> string option) \<Rightarrow> string \<Rightarrow> string \<Rightarrow> bool" where
  "uncached cache target_lang t = (cache (t, target_lang) = None)"

fun is_request :: "event \<Rightarrow> bool" where
  "is_request (Request texts target_lang) = True"
| "is_request (Sleep d) = False"


text \<open>
  A service whose answer depends on the position of a text in the request, and the
  translator after \<open>translate_batch(["hello"], "French")\<close> on the tagging service.
\<close>

definition numbered :: "unit model" where
  "numbered s texts target_lang =
     (Json (map (\<lambda>(i, t). tag t @ replicate i (CHR ''+'')) (enumerate 0 texts)), s)"

definition hello_cached :: "unit translator" where
  "hello_cached =
     \<lparr>translation_cache = [(''hello'', ''French'') \<mapsto> ''T:hello''], remote = (),
      events = [Request [''hello''] ''French'', Sleep (1 / 2)]\<rparr>"


text \<open>
  The calls of a run of \<open>_call_translation_api\<close> that return through the degraded branch
  (\<open>return [""] * len(texts)\<close>, line 102), each given as the segment \<open>(lo, n)\<close> of the
  texts of the outermost call that it was called on: the recursion of the function itself,
  with the positions of the halves added up.
\<close>

fun degraded_segments ::
  "'s model \<Rightarrow> nat \<Rightarrow> nat \<Rightarrow> string list \<Rightarrow> string \<Rightarrow> 's translator \<Rightarrow> (nat \<times> nat) list" where
  "degraded_segments model 0 attempt texts target_lang st = []"
| "degraded_segments model (Suc fuel) attempt texts target_lang st =
     (if attempt \<ge> MAX_RETRIES then []
      else
        (case try_block texts (generate_content model texts target_lang st) of
           (Json new_translations, st1) \<Rightarrow> []
         | (RaiseValueError e, st1) \<Rightarrow>
             (if sublist COUNT_MISMATCH e
              then
                degraded_segments model fuel 0 (take (length texts div 2) texts) target_lang st1
                @ (case call_translation_api model fuel 0
                          (take (length texts div 2) texts) target_lang st1 of
                     Some (Inr first_half, st2) \<Rightarrow>
                       map (\<lambda>(lo, n). (length texts div 2 + lo, n))
                         (degraded_segments model fuel 0
                            (drop (length texts div 2) texts) target_lang st2)
                   | _ \<Rightarrow> [])
              else [(0, length texts)])
         | (RaiseException e, st1) \<Rightarrow>
             (let st2 = (if sublist QUOTA_EXHAUST_ERROR e
                         then sleep QUOTA_EXHAUST_ERROR_DELAY st1 else st1)
              in if attempt = MAX_RETRIES - 1 then []
                 else degraded_segments model fuel (Suc attempt) texts target_lang
                        (sleep RETRY_DELAY st2))))"

text \<open>
  A service that follows a script, one entry per request: an answer one element short,
  the tagged translations, or text that \<open>json.loads\<close> rejects; after the script it
  translates.
\<close>

datatype answer = Too_short | Translated | Unparseable

definition scripted :: "answer list model" where
  "scripted s texts target_lang =
     (case s of
        [] \<Rightarrow> (Json (map tag texts), [])
      | Too_short # rest \<Rightarrow> (Json (map tag (butlast texts)), rest)
      | Translated # rest \<Rightarrow> (Json (map tag texts), rest)
      | Unparseable # rest \<Rightarrow>
          (RaiseValueError ''Expecting value: line 1 column 1 (char 0)'', rest))"


section \<open>Token estimation\<close>




lemma DocxProcessor_estimate_tokens_div:
  "DocxProcessor_estimate_tokens text = (length text + 3) div 4"
proof -
  have "\<lceil>(of_nat (length text) :: rat) / of_nat 4\<rceil> = - (- int (length text) div 4)"
    using ceiling_divide_eq_div [of "int (length text)" 4, where ?'a = rat] by simp
  then show ?thesis
    unfolding DocxProcessor_estimate_tokens_def CHARS_PER_TOKEN_def by simp
qed

lemma ExcelProcessor_estimate_tokens_delimiter:
  "ExcelProcessor_estimate_tokens (text @ TRANSLATION_DELIMITER) = length text div 4 + 1"
  by (simp add: ExcelProcessor_estimate_tokens_def TRANSLATION_DELIMITER_def CHARS_PER_TOKEN_def)

text \<open>
  Claim C5, as the code has it. \<open>DocxProcessor.estimate_tokens\<close> rounds up: its result is
  the least number of tokens whose 4 characters each cover the text, that is
  \<open>ceil(len(text) / 4)\<close>, so it never under-counts. \<open>ExcelProcessor.estimate_tokens\<close>
  rounds down, \<open>len(text) // 4\<close>; its batcher estimates every text together with the
  4-character delimiter, which gives \<open>len(text) // 4 + 1\<close>, never below the rounded-up
  quotient.
\<close>

theorem estimate_tokens_rounding:
  "length text \<le> 4 * DocxProcessor_estimate_tokens text
   \<and> 4 * DocxProcessor_estimate_tokens text < length text + 4
   \<and> DocxProcessor_estimate_tokens text = nat \<lceil>(of_nat (length text) :: rat) / 4\<rceil>
   \<and> ExcelProcessor_estimate_tokens text = length text div 4
   \<and> ExcelProcessor_estimate_tokens (text @ TRANSLATION_DELIMITER) = length text div 4 + 1
   \<and> DocxProcessor_estimate_tokens text \<le> ExcelProcessor_estimate_tokens (text @ TRANSLATION_DELIMITER)"
proof -
  have a: "DocxProcessor_estimate_tokens text = (length text + 3) div 4"
    by (rule DocxProcessor_estimate_tokens_div)
  have b: "DocxProcessor_estimate_tokens text = nat \<lceil>(of_nat (length text) :: rat) / 4\<rceil>"
    by (simp add: DocxProcessor_estimate_tokens_def CHARS_PER_TOKEN_def)
  have c: "ExcelProcessor_estimate_tokens text = length text div 4"
    by (simp add: ExcelProcessor_estimate_tokens_def CHARS_PER_TOKEN_def)
  show ?thesis
    unfolding ExcelProcessor_estimate_tokens_delimiter c
    using a b by (simp, arith)
qed

text \<open>
  The claim C5 as it is written fails for \<open>ExcelProcessor.estimate_tokens\<close>: a text of
  5 characters is estimated at 1 token, and 5 / 4 rounded up is 2.
\<close>

theorem ExcelProcessor_estimate_tokens_rounds_down:
  "ExcelProcessor_estimate_tokens ''abcde'' = 1
   \<and> nat \<lceil>(of_nat (length ''abcde'') :: rat) / 4\<rceil> = 2"
proof -
  have "\<lceil>(5::rat) / 4\<rceil> = 2" by (simp add: ceiling_eq_iff)
  then show ?thesis
    by (simp add: ExcelProcessor_estimate_tokens_def CHARS_PER_TOKEN_def)
qed


section \<open>Batching\<close>


lemma DocxProcessor_batch_loop_Cons:
  "DocxProcessor_batch_loop ((index, t) # rest) (bs, cur, cnt) =
     (if cnt + DocxProcessor_estimate_tokens t > MAX_TOKENS_PER_REQUEST \<and> cur \<noteq> []
      then DocxProcessor_batch_loop rest (bs @ [cur], [(index, t)], DocxProcessor_estimate_tokens t)
      else DocxProcessor_batch_loop rest
             (bs, cur @ [(index, t)], cnt + DocxProcessor_estimate_tokens t))"
  by (simp add: Let_def)

lemma DocxProcessor_batch_loop_concat:
  "DocxProcessor_batch_loop items (bs, cur, cnt) = (bs', cur', cnt')
   \<Longrightarrow> concat bs' @ cur' = concat bs @ cur @ items"
proof (induction items arbitrary: bs cur cnt)
  case Nil
  then show ?case by simp
next
  case (Cons x rest)
  obtain index t where x: "x = (index, t)" by (cases x)
  show ?case
    using Cons.prems Cons.IH unfolding x DocxProcessor_batch_loop_Cons
    by (auto split: if_splits)
qed


lemma DocxProcessor_batch_loop_inv:
  "DocxProcessor_batch_loop items (bs, cur, cnt) = (bs', cur', cnt')
   \<Longrightarrow> list_all (\<lambda>b. b \<noteq> [] \<and> docx_ok b) bs \<Longrightarrow> docx_ok cur
   \<Longrightarrow> cnt = DocxProcessor_batch_cost cur
   \<Longrightarrow> list_all (\<lambda>b. b \<noteq> [] \<and> docx_ok b) bs' \<and> docx_ok cur'"
proof (induction items arbitrary: bs cur cnt)
  case Nil
  then show ?case by simp
next
  case (Cons x rest)
  obtain index t where x: "x = (index, t)" by (cases x)
  let ?t = "DocxProcessor_estimate_tokens t"
  show ?case
  proof (cases "cnt + ?t > MAX_TOKENS_PER_REQUEST \<and> cur \<noteq> []")
    case True
    then have e: "DocxProcessor_batch_loop rest (bs @ [cur], [(index, t)], ?t) = (bs', cur', cnt')"
      using Cons.prems(1) unfolding x DocxProcessor_batch_loop_Cons by simp
    show ?thesis
      using Cons.prems True
      by (intro Cons.IH [OF e]) (auto simp add: docx_ok_def DocxProcessor_batch_cost_def)
  next
    case False
    then have e: "DocxProcessor_batch_loop rest (bs, cur @ [(index, t)], cnt + ?t) = (bs', cur', cnt')"
      using Cons.prems(1) unfolding x DocxProcessor_batch_loop_Cons by (auto split: if_splits)
    show ?thesis
      using Cons.prems False
      by (intro Cons.IH [OF e]) (auto simp add: docx_ok_def DocxProcessor_batch_cost_def)
  qed
qed

lemma ExcelProcessor_batch_loop_Cons:
  "ExcelProcessor_batch_loop (t # rest) (bs, cur, cnt) =
     (if cnt + ExcelProcessor_estimate_tokens (t @ TRANSLATION_DELIMITER) > MAX_TOKENS_PER_REQUEST
      then ExcelProcessor_batch_loop rest
             ((if cur \<noteq> [] then bs @ [cur] else bs), [t],
              ExcelProcessor_estimate_tokens (t @ TRANSLATION_DELIMITER))
      else ExcelProcessor_batch_loop rest
             (bs, cur @ [t], cnt + ExcelProcessor_estimate_tokens (t @ TRANSLATION_DELIMITER)))"
  by (simp add: Let_def)

lemma ExcelProcessor_batch_loop_concat:
  "ExcelProcessor_batch_loop items (bs, cur, cnt) = (bs', cur', cnt')
   \<Longrightarrow> concat bs' @ cur' = concat bs @ cur @ items"
proof (induction items arbitrary: bs cur cnt)
  case Nil
  then show ?case by simp
next
  case (Cons t rest)
  show ?case
    using Cons.prems Cons.IH unfolding ExcelProcessor_batch_loop_Cons
    by (auto split: if_splits)
qed


lemma ExcelProcessor_batch_loop_inv:
  "ExcelProcessor_batch_loop items (bs, cur, cnt) = (bs', cur', cnt')
   \<Longrightarrow> list_all (\<lambda>b. b \<noteq> [] \<and> excel_ok b) bs \<Longrightarrow> excel_ok cur
   \<Longrightarrow> cnt = ExcelProcessor_batch_cost cur
   \<Longrightarrow> list_all (\<lambda>b. b \<noteq> [] \<and> excel_ok b) bs' \<and> excel_ok cur'"
proof (induction items arbitrary: bs cur cnt)
  case Nil
  then show ?case by simp
next
  case (Cons t rest)
  let ?t = "ExcelProcessor_estimate_tokens (t @ TRANSLATION_DELIMITER)"
  show ?case
  proof (cases "cnt + ?t > MAX_TOKENS_PER_REQUEST")
    case True
    then have e: "ExcelProcessor_batch_loop rest ((if cur \<noteq> [] then bs @ [cur] else bs), [t], ?t)
                    = (bs', cur', cnt')"
      using Cons.prems(1) unfolding ExcelProcessor_batch_loop_Cons by simp
    show ?thesis
      using Cons.prems True
      by (intro Cons.IH [OF e]) (auto simp add: excel_ok_def ExcelProcessor_batch_cost_def)
  next
    case False
    then have e: "ExcelProcessor_batch_loop rest (bs, cur @ [t], cnt + ?t) = (bs', cur', cnt')"
      using Cons.prems(1) unfolding ExcelProcessor_batch_loop_Cons by simp
    show ?thesis
      using Cons.prems False
      by (intro Cons.IH [OF e]) (auto simp add: excel_ok_def ExcelProcessor_batch_cost_def)
  qed
qed




lemma length_text_of_length [simp]: "length (text_of_length n c) = n"
  by (simp add: text_of_length_def)


lemma DocxProcessor_create_batches_concat:
  "concat (DocxProcessor_create_batches items) = items"
proof -
  obtain bs cur cnt where e: "DocxProcessor_batch_loop items ([], [], 0) = (bs, cur, cnt)"
    by (cases "DocxProcessor_batch_loop items ([], [], 0)") auto
  from DocxProcessor_batch_loop_concat [OF e] show ?thesis
    by (auto simp add: DocxProcessor_create_batches_def e)
qed

lemma DocxProcessor_create_batches_ok:
  "list_all (\<lambda>b. b \<noteq> [] \<and> docx_ok b) (DocxProcessor_create_batches items)"
proof -
  obtain bs cur cnt where e: "DocxProcessor_batch_loop items ([], [], 0) = (bs, cur, cnt)"
    by (cases "DocxProcessor_batch_loop items ([], [], 0)") auto
  have "list_all (\<lambda>b. b \<noteq> [] \<and> docx_ok b) bs \<and> docx_ok cur"
    by (rule DocxProcessor_batch_loop_inv [OF e])
       (simp_all add: docx_ok_def DocxProcessor_batch_cost_def)
  then show ?thesis
    by (simp add: DocxProcessor_create_batches_def e)
qed

lemma docx_oversized_alone:
  assumes "b \<noteq> []" "docx_ok b" "u \<in> set b"
    and "MAX_TOKENS_PER_REQUEST < DocxProcessor_estimate_tokens (snd u)"
  shows "b = [u]"
proof -
  have "DocxProcessor_estimate_tokens (snd u) \<le> DocxProcessor_batch_cost b"
    unfolding DocxProcessor_batch_cost_def
    using assms(3) by (intro member_le_sum_list) (auto simp: case_prod_beta)
  with assms(2,4) have "length b < 2" by (auto simp: docx_ok_def)
  with assms(1,3) show ?thesis by (cases b) auto
qed

lemma ExcelProcessor_create_batches_concat:
  "concat (ExcelProcessor_create_batches texts) = texts"
proof -
  obtain bs cur cnt where e: "ExcelProcessor_batch_loop texts ([], [], 0) = (bs, cur, cnt)"
    by (cases "ExcelProcessor_batch_loop texts ([], [], 0)") auto
  from ExcelProcessor_batch_loop_concat [OF e] show ?thesis
    by (auto simp add: ExcelProcessor_create_batches_def e)
qed

lemma ExcelProcessor_create_batches_ok:
  "list_all (\<lambda>b. b \<noteq> [] \<and> excel_ok b) (ExcelProcessor_create_batches texts)"
proof -
  obtain bs cur cnt where e: "ExcelProcessor_batch_loop texts ([], [], 0) = (bs, cur, cnt)"
    by (cases "ExcelProcessor_batch_loop texts ([], [], 0)") auto
  have "list_all (\<lambda>b. b \<noteq> [] \<and> excel_ok b) bs \<and> excel_ok cur"
    by (rule ExcelProcessor_batch_loop_inv [OF e])
       (simp_all add: excel_ok_def ExcelProcessor_batch_cost_def)
  then show ?thesis
    by (simp add: ExcelProcessor_create_batches_def e)
qed

lemma excel_oversized_alone:
  assumes "b \<noteq> []" "excel_ok b" "u \<in> set b"
    and "MAX_TOKENS_PER_REQUEST < ExcelProcessor_estimate_tokens (u @ TRANSLATION_DELIMITER)"
  shows "b = [u]"
proof -
  have "ExcelProcessor_estimate_tokens (u @ TRANSLATION_DELIMITER) \<le> ExcelProcessor_batch_cost b"
    unfolding ExcelProcessor_batch_cost_def
    using assms(3) by (intro member_le_sum_list) auto
  with assms(2,4) have "length b < 2" by (auto simp: excel_ok_def)
  with assms(1,3) show ?thesis by (cases b) auto
qed




lemma docx_example:
  "DocxProcessor_create_batches
      [(0, text_of_length 1596 CHR ''a''), (1, ''b''), (2, text_of_length 1596 CHR ''c'')]
    = [[(0, text_of_length 1596 CHR ''a''), (1, ''b'')], [(2, text_of_length 1596 CHR ''c'')]]"
  by (simp add: DocxProcessor_create_batches_def DocxProcessor_batch_loop_Cons
        DocxProcessor_estimate_tokens_div MAX_TOKENS_PER_REQUEST_def
      del: DocxProcessor_batch_loop.simps(2))

lemma excel_example:
  "ExcelProcessor_create_batches [text_of_length 1592 CHR ''a'', ''b'', text_of_length 1592 CHR ''c'']
    = [[text_of_length 1592 CHR ''a'', ''b''], [text_of_length 1592 CHR ''c'']]"
  by (simp add: ExcelProcessor_create_batches_def ExcelProcessor_batch_loop_Cons
        ExcelProcessor_estimate_tokens_def TRANSLATION_DELIMITER_def CHARS_PER_TOKEN_def MAX_TOKENS_PER_REQUEST_def
      del: ExcelProcessor_batch_loop.simps(2))




text \<open>
  Claim C6, for both batchers (\<open>DocxProcessor.create_batches\<close> on indexed texts and
  \<open>ExcelProcessor.create_batches\<close> on texts): the concatenation of the batches is the
  input, so order is kept and nothing is dropped; a non-empty input gives at least one
  batch; no batch is empty; a batch of two or more units has a summed estimated cost of at
  most \<open>MAX_TOKENS_PER_REQUEST\<close>; a unit whose own estimate exceeds the limit is alone in
  its batch; and texts of estimated costs 399, 1, 399 are packed as \<open>[[399, 1], [399]]\<close>.
\<close>

theorem create_batches_partition:
  "concat (DocxProcessor_create_batches items) = items
   \<and> (items \<noteq> [] \<longrightarrow> DocxProcessor_create_batches items \<noteq> [])
   \<and> (\<forall>b \<in> set (DocxProcessor_create_batches items).
         b \<noteq> []
         \<and> (2 \<le> length b \<longrightarrow> DocxProcessor_batch_cost b \<le> MAX_TOKENS_PER_REQUEST)
         \<and> (\<forall>u \<in> set b. MAX_TOKENS_PER_REQUEST < DocxProcessor_estimate_tokens (snd u)
               \<longrightarrow> b = [u]))
   \<and> concat (ExcelProcessor_create_batches texts) = texts
   \<and> (texts \<noteq> [] \<longrightarrow> ExcelProcessor_create_batches texts \<noteq> [])
   \<and> (\<forall>b \<in> set (ExcelProcessor_create_batches texts).
         b \<noteq> []
         \<and> (2 \<le> length b \<longrightarrow> ExcelProcessor_batch_cost b \<le> MAX_TOKENS_PER_REQUEST)
         \<and> (\<forall>u \<in> set b.
               MAX_TOKENS_PER_REQUEST < ExcelProcessor_estimate_tokens (u @ TRANSLATION_DELIMITER)
               \<longrightarrow> b = [u]))
   \<and> map (map (DocxProcessor_estimate_tokens \<circ> snd))
        (DocxProcessor_create_batches
           [(0, text_of_length 1596 CHR ''a''), (1, ''b''), (2, text_of_length 1596 CHR ''c'')])
      = [[399, 1], [399]]
   \<and> map (map (\<lambda>t. ExcelProcessor_estimate_tokens (t @ TRANSLATION_DELIMITER)))
        (ExcelProcessor_create_batches [text_of_length 1592 CHR ''a'', ''b'', text_of_length 1592 CHR ''c''])
      = [[399, 1], [399]]"
proof -
  have d1: "concat (DocxProcessor_create_batches items) = items"
    by (rule DocxProcessor_create_batches_concat)
  have d2: "items \<noteq> [] \<longrightarrow> DocxProcessor_create_batches items \<noteq> []"
    using d1 by auto
  have d3: "\<forall>b \<in> set (DocxProcessor_create_batches items).
         b \<noteq> []
         \<and> (2 \<le> length b \<longrightarrow> DocxProcessor_batch_cost b \<le> MAX_TOKENS_PER_REQUEST)
         \<and> (\<forall>u \<in> set b. MAX_TOKENS_PER_REQUEST < DocxProcessor_estimate_tokens (snd u)
               \<longrightarrow> b = [u])"
  proof
    fix b assume "b \<in> set (DocxProcessor_create_batches items)"
    with DocxProcessor_create_batches_ok [of items] have b: "b \<noteq> []" "docx_ok b"
      by (auto simp: list_all_iff)
    from b(2) have "2 \<le> length b \<longrightarrow> DocxProcessor_batch_cost b \<le> MAX_TOKENS_PER_REQUEST"
      by (auto simp: docx_ok_def)
    with b docx_oversized_alone [OF b]
    show "b \<noteq> []
         \<and> (2 \<le> length b \<longrightarrow> DocxProcessor_batch_cost b \<le> MAX_TOKENS_PER_REQUEST)
         \<and> (\<forall>u \<in> set b. MAX_TOKENS_PER_REQUEST < DocxProcessor_estimate_tokens (snd u)
               \<longrightarrow> b = [u])"
      by blast
  qed
  have e1: "concat (ExcelProcessor_create_batches texts) = texts"
    by (rule ExcelProcessor_create_batches_concat)
  have e2: "texts \<noteq> [] \<longrightarrow> ExcelProcessor_create_batches texts \<noteq> []"
    using e1 by auto
  have e3: "\<forall>b \<in> set (ExcelProcessor_create_batches texts).
         b \<noteq> []
         \<and> (2 \<le> length b \<longrightarrow> ExcelProcessor_batch_cost b \<le> MAX_TOKENS_PER_REQUEST)
         \<and> (\<forall>u \<in> set b.
               MAX_TOKENS_PER_REQUEST < ExcelProcessor_estimate_tokens (u @ TRANSLATION_DELIMITER)
               \<longrightarrow> b = [u])"
  proof
    fix b assume "b \<in> set (ExcelProcessor_create_batches texts)"
    with ExcelProcessor_create_batches_ok [of texts] have b: "b \<noteq> []" "excel_ok b"
      by (auto simp: list_all_iff)
    from b(2) have "2 \<le> length b \<longrightarrow> ExcelProcessor_batch_cost b \<le> MAX_TOKENS_PER_REQUEST"
      by (auto simp: excel_ok_def)
    with b excel_oversized_alone [OF b]
    show "b \<noteq> []
         \<and> (2 \<le> length b \<longrightarrow> ExcelProcessor_batch_cost b \<le> MAX_TOKENS_PER_REQUEST)
         \<and> (\<forall>u \<in> set b.
               MAX_TOKENS_PER_REQUEST < ExcelProcessor_estimate_tokens (u @ TRANSLATION_DELIMITER)
               \<longrightarrow> b = [u])"
      by blast
  qed
  have x1: "map (map (DocxProcessor_estimate_tokens \<circ> snd))
        (DocxProcessor_create_batches
           [(0, text_of_length 1596 CHR ''a''), (1, ''b''), (2, text_of_length 1596 CHR ''c'')])
      = [[399, 1], [399]]"
    unfolding docx_example by (simp add: DocxProcessor_estimate_tokens_div)
  have x2: "map (map (\<lambda>t. ExcelProcessor_estimate_tokens (t @ TRANSLATION_DELIMITER)))
        (ExcelProcessor_create_batches [text_of_length 1592 CHR ''a'', ''b'', text_of_length 1592 CHR ''c''])
      = [[399, 1], [399]]"
    unfolding excel_example
    by (simp add: ExcelProcessor_estimate_tokens_def TRANSLATION_DELIMITER_def CHARS_PER_TOKEN_def)
  from d1 d2 d3 e1 e2 e3 x1 x2 show ?thesis by blast
qed




text \<open>
  The theorem at an input whose first unit alone exceeds the limit (401 tokens): it is
  a batch of its own, and the two short texts that follow share the next batch.
\<close>

theorem create_batches_partition_witness:
  "concat (DocxProcessor_create_batches [(0, text_of_length 1604 CHR ''a''), (1, ''b''), (2, ''c'')])
     = [(0, text_of_length 1604 CHR ''a''), (1, ''b''), (2, ''c'')]
   \<and> DocxProcessor_create_batches [(0, text_of_length 1604 CHR ''a''), (1, ''b''), (2, ''c'')]
     = [[(0, text_of_length 1604 CHR ''a'')], [(1, ''b''), (2, ''c'')]]
   \<and> MAX_TOKENS_PER_REQUEST < DocxProcessor_estimate_tokens (text_of_length 1604 CHR ''a'')
   \<and> DocxProcessor_batch_cost [(1, ''b''), (2, ''c'')] = 2
   \<and> concat (ExcelProcessor_create_batches [text_of_length 1604 CHR ''a'', ''b'', ''c''])
     = [text_of_length 1604 CHR ''a'', ''b'', ''c'']
   \<and> ExcelProcessor_create_batches [text_of_length 1604 CHR ''a'', ''b'', ''c'']
     = [[text_of_length 1604 CHR ''a''], [''b'', ''c'']]
   \<and> ExcelProcessor_batch_cost [''b'', ''c''] = 2"
  using create_batches_partition
          [of "[(0, text_of_length 1604 CHR ''a''), (1, ''b''), (2, ''c'')]"
              "[text_of_length 1604 CHR ''a'', ''b'', ''c'']"]
  by (simp add: DocxProcessor_create_batches_def DocxProcessor_batch_loop_Cons
        DocxProcessor_estimate_tokens_div MAX_TOKENS_PER_REQUEST_def
        ExcelProcessor_create_batches_def ExcelProcessor_batch_loop_Cons
        ExcelProcessor_estimate_tokens_def TRANSLATION_DELIMITER_def CHARS_PER_TOKEN_def DocxProcessor_batch_cost_def
        ExcelProcessor_batch_cost_def
      del: DocxProcessor_batch_loop.simps(2) ExcelProcessor_batch_loop.simps(2))


section \<open>The remote call\<close>

lemma sublist_COUNT_MISMATCH [simp]: "sublist COUNT_MISMATCH (COUNT_MISMATCH @ e)"
  unfolding sublist_def by (rule exI [of _ "[]"], rule exI [of _ e]) simp

lemma try_block_Json:
  "try_block texts (Json new, st) =
     (if length new \<noteq> length texts
      then (RaiseValueError (COUNT_MISMATCH @ '': expected n, got m''), sleep REQUEST_DELAY st)
      else (Json new, sleep REQUEST_DELAY st))"
  by (simp add: try_block_def)

lemma try_block_RaiseValueError: "try_block texts (RaiseValueError e, st) = (RaiseValueError e, st)"
  by (simp add: try_block_def)

lemma try_block_RaiseException: "try_block texts (RaiseException e, st) = (RaiseException e, st)"
  by (simp add: try_block_def)

lemma try_block_Json_length:
  "try_block texts r = (Json new, st1) \<Longrightarrow> length new = length texts"
  by (auto simp: try_block_def split: prod.splits response.splits if_splits)

lemma try_block_cache:
  "try_block texts (generate_content model texts target_lang st) = (resp, st1)
   \<Longrightarrow> translation_cache st1 = translation_cache st"
  by (auto simp: try_block_def generate_content_def sleep_def
           split: prod.splits response.splits if_splits)

lemma call_translation_api_length:
  "call_translation_api model fuel attempt texts target_lang st = Some (Inr (Some out), st')
   \<Longrightarrow> length out = length texts"
proof (induction fuel arbitrary: attempt texts st out st')
  case 0
  then show ?case by simp
next
  case (Suc fuel)
  show ?case
  proof (cases "attempt \<ge> MAX_RETRIES")
    case True
    with Suc.prems show ?thesis by simp
  next
    case False
    obtain resp st1 where tb:
      "try_block texts (generate_content model texts target_lang st) = (resp, st1)"
      by (cases "try_block texts (generate_content model texts target_lang st)") auto
    show ?thesis
    proof (cases resp)
      case (Json new)
      with Suc.prems False tb try_block_Json_length [of texts _ new st1] show ?thesis
        by auto
    next
      case (RaiseValueError e)
      show ?thesis
      proof (cases "sublist COUNT_MISMATCH e")
        case True
        let ?m = "length texts div 2"
        from Suc.prems False tb RaiseValueError True
        obtain a b st2 st3 where
          h1: "call_translation_api model fuel 0 (take ?m texts) target_lang st1 = Some (Inr a, st2)"
          and h2: "call_translation_api model fuel 0 (drop ?m texts) target_lang st2 = Some (Inr b, st3)"
          and c: "concat_halves a b = Inr (Some out)"
          by (auto split: option.splits sum.splits prod.splits)
        from c obtain xa xb where ab: "a = Some xa" "b = Some xb" "out = xa @ xb"
          by (cases a; cases b) auto
        from Suc.IH [OF h1 [unfolded ab]] Suc.IH [OF h2 [unfolded ab]] ab
        show ?thesis by simp
      next
        case nomatch: False
        with Suc.prems False tb RaiseValueError show ?thesis by auto
      qed
    next
      case (RaiseException e)
      with Suc.prems False tb show ?thesis
        by (auto simp: Let_def split: if_splits dest: Suc.IH)
    qed
  qed
qed

lemma call_translation_api_cache:
  "call_translation_api model fuel attempt texts target_lang st = Some (res, st')
   \<Longrightarrow> translation_cache st' = translation_cache st"
proof (induction fuel arbitrary: attempt texts st res st')
  case 0
  then show ?case by simp
next
  case (Suc fuel)
  show ?case
  proof (cases "attempt \<ge> MAX_RETRIES")
    case True
    with Suc.prems show ?thesis by simp
  next
    case False
    obtain resp st1 where tb:
      "try_block texts (generate_content model texts target_lang st) = (resp, st1)"
      by (cases "try_block texts (generate_content model texts target_lang st)") auto
    note c1 = try_block_cache [OF tb]
    show ?thesis
    proof (cases resp)
      case (Json new)
      with Suc.prems False tb c1 show ?thesis by auto
    next
      case (RaiseValueError e)
      show ?thesis
      proof (cases "sublist COUNT_MISMATCH e")
        case True
        let ?m = "length texts div 2"
        from Suc.prems False tb RaiseValueError True
        obtain r1 st2 where
          h1: "call_translation_api model fuel 0 (take ?m texts) target_lang st1 = Some (r1, st2)"
          by (auto split: option.splits sum.splits prod.splits)
        note c2 = Suc.IH [OF h1]
        show ?thesis
        proof (cases r1)
          case (Inl err)
          with Suc.prems False tb RaiseValueError True h1 c1 c2 show ?thesis by auto
        next
          case (Inr a)
          with Suc.prems False tb RaiseValueError True h1
          obtain r2 st3 where
            h2: "call_translation_api model fuel 0 (drop ?m texts) target_lang st2 = Some (r2, st3)"
            and "st' = st3"
            by (auto split: option.splits sum.splits prod.splits)
          with Suc.IH [OF h2] c1 c2 show ?thesis by simp
        qed
      next
        case nomatch: False
        with Suc.prems False tb RaiseValueError c1 show ?thesis by auto
      qed
    next
      case (RaiseException e)
      with Suc.prems False tb c1 show ?thesis
        by (auto simp: Let_def sleep_def split: if_splits dest!: Suc.IH)
    qed
  qed
qed

text \<open>
  Claim C8. When the request of an attempt raises an exception whose message contains the
  quota signature, and the attempt is not the last one, the call goes on with the next
  attempt after exactly two sleeps, in this order: \<open>QUOTA_EXHAUST_ERROR_DELAY\<close>, then
  \<open>RETRY_DELAY\<close>. The long delay is added to the standard one, it does not replace it.
\<close>

theorem quota_backoff_then_retry_delay:
  assumes "model (remote st) texts target_lang = (RaiseException e, r)"
    and "sublist QUOTA_EXHAUST_ERROR e"
    and "attempt < MAX_RETRIES - 1"
  shows "call_translation_api model (Suc fuel) attempt texts target_lang st =
         call_translation_api model fuel (Suc attempt) texts target_lang
           (st\<lparr>remote := r,
               events := events st @ [Request texts target_lang,
                                      Sleep QUOTA_EXHAUST_ERROR_DELAY, Sleep RETRY_DELAY]\<rparr>)"
proof -
  from assms(3) have a: "\<not> MAX_RETRIES \<le> attempt" "attempt \<noteq> MAX_RETRIES - 1"
    by simp_all
  show ?thesis
    using assms(1,2) a
    by (simp add: generate_content_def try_block_def sleep_def)
qed

text \<open>
  The theorem at a service that raises the quota error once and then answers: the events
  of the call are the request, a sleep of 10, a sleep of 1, the second request and the
  request delay.
\<close>

theorem quota_backoff_then_retry_delay_witness:
  "quota_then_ok (remote (init 0)) [''hello''] ''French''
     = (RaiseException ''429 Resource has been exhausted (e.g. check quota).'', 1)
   \<and> sublist QUOTA_EXHAUST_ERROR ''429 Resource has been exhausted (e.g. check quota).''
   \<and> 0 < MAX_RETRIES - 1
   \<and> call_translation_api quota_then_ok 2 0 [''hello''] ''French'' (init 0)
     = Some (Inr (Some [''T:hello'']),
             \<lparr>translation_cache = Map.empty, remote = 2,
              events = [Request [''hello''] ''French'', Sleep 10, Sleep 1,
                        Request [''hello''] ''French'', Sleep (1 / 2)]\<rparr>)"
proof -
  have h1: "quota_then_ok (remote (init 0)) [''hello''] ''French''
     = (RaiseException ''429 Resource has been exhausted (e.g. check quota).'', 1)"
    by (simp add: quota_then_ok_def init_def)
  have h2: "sublist QUOTA_EXHAUST_ERROR ''429 Resource has been exhausted (e.g. check quota).''"
    by code_simp
  have h3: "0 < MAX_RETRIES - 1"
    by (simp add: MAX_RETRIES_def)
  have "call_translation_api quota_then_ok (Suc (Suc 0)) 0 [''hello''] ''French'' (init 0)
     = Some (Inr (Some [''T:hello'']),
             \<lparr>translation_cache = Map.empty, remote = 2,
              events = [Request [''hello''] ''French'', Sleep 10, Sleep 1,
                        Request [''hello''] ''French'', Sleep (1 / 2)]\<rparr>)"
    unfolding quota_backoff_then_retry_delay
                [of quota_then_ok "init 0" "[''hello'']" "''French''" _ 1 0 "Suc 0", OF h1 h2 h3]
    by (simp add: generate_content_def try_block_def sleep_def quota_then_ok_def init_def tag_def
          MAX_RETRIES_def QUOTA_EXHAUST_ERROR_DELAY_def RETRY_DELAY_def REQUEST_DELAY_def)
  with h1 h2 h3 show ?thesis by (simp add: numeral_2_eq_2)
qed

lemma MAX_RETRIES_pos [simp]: "0 < MAX_RETRIES"
  by (simp add: MAX_RETRIES_def)

lemma one_fewer_Nil:
  "call_translation_api one_fewer (Suc fuel) 0 [] target_lang st
     = Some (Inr (Some []), sleep REQUEST_DELAY (snd (generate_content one_fewer [] target_lang st)))"
  by (simp add: generate_content_def try_block_def one_fewer_def)

text \<open>
  Claim C2 fails on the code. For a single text, \<open>midpoint\<close> is 0, so the second half
  \<open>texts[midpoint:]\<close> is the same single text and the call recurses on its own input.
  With the service that returns one element fewer than requested, the call on a singleton
  does not return, whatever bound is given to the recursion.
\<close>

theorem split_retry_singleton_never_returns:
  "call_translation_api one_fewer fuel 0 [t] target_lang st = None"
proof (induction fuel arbitrary: st)
  case 0
  show ?case by simp
next
  case (Suc fuel)
  have tb: "try_block [t] (generate_content one_fewer [t] target_lang st)
      = (RaiseValueError (COUNT_MISMATCH @ '': expected n, got m''),
         sleep REQUEST_DELAY (snd (generate_content one_fewer [t] target_lang st)))"
    by (simp add: generate_content_def try_block_def one_fewer_def)
  have first: "call_translation_api one_fewer fuel 0 [] target_lang st1 = None
      \<or> (\<exists>st2. call_translation_api one_fewer fuel 0 [] target_lang st1
                  = Some (Inr (Some []), st2))" for st1
    by (cases fuel) (simp_all add: one_fewer_Nil del: call_translation_api.simps(2))
  show ?case
    using first [of "sleep REQUEST_DELAY (snd (generate_content one_fewer [t] target_lang st))"]
    by (auto simp add: tb Suc.IH)
qed

lemma one_more_never_returns:
  "call_translation_api one_more fuel 0 texts target_lang st = None"
proof (induction fuel arbitrary: texts st)
  case 0
  show ?case by simp
next
  case (Suc fuel)
  have tb: "try_block texts (generate_content one_more texts target_lang st)
      = (RaiseValueError (COUNT_MISMATCH @ '': expected n, got m''),
         sleep REQUEST_DELAY (snd (generate_content one_more texts target_lang st)))"
    by (simp add: generate_content_def try_block_def one_more_def)
  show ?case
    by (simp add: tb Suc.IH)
qed

lemma preprocess_text_hello: "preprocess_text ''hello'' = ''hello''"
  by code_simp

text \<open>
  Claim C1 fails on the code for a service whose answers are always too long: every call
  ends in a count mismatch, also the calls on the halves, and \<open>translate_batch\<close> returns no
  list, whatever bound is given to the recursion.
\<close>

theorem translate_batch_too_long_never_returns:
  "translate_batch one_more fuel [''hello''] ''French'' (init ()) = None"
  by (simp add: translate_batch_def preprocess_text_hello get_cached_translations_def init_def
        one_more_never_returns)

section \<open>Each loop of the entry point\<close>

lemma get_cached_loop_closed:
  "get_cached_loop cache target_lang (length pre) xs
       (uis, uts, pre @ replicate (length xs) None)
   = (uis @ map fst (filter (\<lambda>(j, t). cache (t, target_lang) = None) (enumerate (length pre) xs)),
      uts @ filter (\<lambda>t. cache (t, target_lang) = None) xs,
      pre @ map (\<lambda>t. cache (t, target_lang)) xs)"
proof (induction xs arbitrary: pre uis uts)
  case Nil
  show ?case by simp
next
  case (Cons x xs)
  show ?case
  proof (cases "cache (x, target_lang)")
    case None
    have "get_cached_loop cache target_lang (length pre) (x # xs)
            (uis, uts, pre @ replicate (length (x # xs)) None)
      = get_cached_loop cache target_lang (length (pre @ [None])) xs
            (uis @ [length pre], uts @ [x], (pre @ [None]) @ replicate (length xs) None)"
      using None by simp
    also note Cons.IH
    finally show ?thesis using None by simp
  next
    case (Some v)
    have "get_cached_loop cache target_lang (length pre) (x # xs)
            (uis, uts, pre @ replicate (length (x # xs)) None)
      = get_cached_loop cache target_lang (length (pre @ [Some v])) xs
            (uis, uts, (pre @ [Some v]) @ replicate (length xs) None)"
      using Some by simp
    also note Cons.IH
    finally show ?thesis using Some by simp
  qed
qed

lemma get_cached_translations_closed:
  "get_cached_translations cache texts target_lang (replicate (length texts) None)
   = (map fst (filter (\<lambda>(j, t). cache (t, target_lang) = None) (enumerate 0 texts)),
      filter (\<lambda>t. cache (t, target_lang) = None) texts,
      map (\<lambda>t. cache (t, target_lang)) texts)"
  unfolding get_cached_translations_def
  using get_cached_loop_closed [of cache target_lang "[]" texts "[]" "[]"] by simp

lemma uncached_zip:
  "zip (map fst (filter (\<lambda>(j, t). P t) (enumerate i xs))) (filter P xs)
   = filter (\<lambda>(j, t). P t) (enumerate i xs)"
proof -
  have "filter P xs = map snd (filter (\<lambda>(j, t). P t) (enumerate i xs))"
    by (induction xs arbitrary: i) auto
  then show ?thesis by (simp add: zip_map_fst_snd)
qed

lemma uncached_indices_distinct:
  "distinct (map fst (filter (\<lambda>(j, t). P t) (enumerate i xs)))"
  by (rule distinct_map_filter) simp

lemma uncached_indices_set:
  "set (map fst (filter (\<lambda>(j, t). P t) (enumerate 0 xs))) = {j. j < length xs \<and> P (xs ! j)}"
  by (auto simp: in_set_enumerate_eq image_iff)

lemma uncached_length:
  "length (filter (\<lambda>(j, t). P t) (enumerate i xs)) = length (filter P xs)"
  by (induction xs arbitrary: i) auto

lemma uncached_nth:
  assumes "k < length (filter P xs)"
  shows "xs ! (map fst (filter (\<lambda>(j, t). P t) (enumerate 0 xs)) ! k) = filter P xs ! k"
proof -
  let ?uis = "map fst (filter (\<lambda>(j, t). P t) (enumerate 0 xs))"
  have "(?uis ! k, filter P xs ! k) = zip ?uis (filter P xs) ! k"
    using assms by (simp add: uncached_length)
  also have "\<dots> \<in> set (zip ?uis (filter P xs))"
    using assms by (intro nth_mem) (simp add: uncached_length)
  finally have "(?uis ! k, filter P xs ! k) \<in> set (enumerate 0 xs)"
    unfolding uncached_zip by simp
  then show ?thesis by (simp add: in_set_enumerate_eq)
qed

lemma write_slots_Nil [simp]: "write_slots tr [] = tr"
  by (simp add: write_slots_def)

lemma write_slots_Cons [simp]: "write_slots tr ((i, v) # zs) = write_slots (tr[i := Some v]) zs"
  by (simp add: write_slots_def)

lemma write_cache_Nil [simp]: "write_cache l c [] = c"
  by (simp add: write_cache_def)

lemma write_cache_Cons [simp]:
  "write_cache l c ((t, v) # zs) = write_cache l (c((t, l) \<mapsto> v)) zs"
  by (simp add: write_cache_def)

lemma write_cache_append:
  "write_cache l c (zs @ ws) = write_cache l (write_cache l c zs) ws"
  by (simp add: write_cache_def)

lemma store_translations_closed:
  "length uis = length new \<Longrightarrow> length uts = length new
   \<Longrightarrow> store_translations target_lang uis uts new (c, tr)
       = Inr (write_cache target_lang c (zip uts new), write_slots tr (zip uis new))"
proof (induction new arbitrary: uis uts c tr)
  case Nil
  then show ?case by simp
next
  case (Cons v new)
  then obtain i uis' t uts' where "uis = i # uis'" "uts = t # uts'"
    by (cases uis; cases uts) auto
  with Cons show ?case by (simp add: fun_upd_def)
qed

lemma length_write_slots [simp]: "length (write_slots tr zs) = length tr"
  by (induction zs arbitrary: tr) auto

lemma write_slots_other:
  "j \<notin> fst ` set zs \<Longrightarrow> write_slots tr zs ! j = tr ! j"
  by (induction zs arbitrary: tr) auto

lemma write_slots_written:
  "distinct (map fst zs) \<Longrightarrow> (i, v) \<in> set zs \<Longrightarrow> i < length tr
   \<Longrightarrow> write_slots tr zs ! i = Some v"
proof (induction zs arbitrary: tr)
  case Nil
  then show ?case by simp
next
  case (Cons z zs)
  obtain i0 v0 where z: "z = (i0, v0)" by (cases z)
  show ?case
  proof (cases "(i, v) = z")
    case True
    with Cons.prems z have "i \<notin> fst ` set zs" by auto
    with True z Cons.prems(3) show ?thesis by (simp add: write_slots_other)
  next
    case False
    with Cons.prems z have "(i, v) \<in> set zs" "distinct (map fst zs)" by auto
    with Cons.IH [of "tr[i0 := Some v0]"] Cons.prems(3) z show ?thesis by simp
  qed
qed

lemma write_cache_other:
  "key \<notin> (\<lambda>(t, v). (t, l)) ` set zs \<Longrightarrow> write_cache l c zs key = c key"
  by (induction zs arbitrary: c) auto

lemma write_cache_last:
  "t \<notin> fst ` set ws \<Longrightarrow> write_cache l c (zs @ (t, v) # ws) (t, l) = Some v"
  by (simp add: write_cache_append write_cache_other image_iff split_beta)

lemma write_cache_written:
  "t \<in> fst ` set zs \<Longrightarrow> \<exists>v \<in> snd ` set zs. write_cache l c zs (t, l) = Some v"
proof (induction zs arbitrary: c)
  case Nil
  then show ?case by simp
next
  case (Cons z zs)
  obtain t0 v0 where z: "z = (t0, v0)" by (cases z)
  show ?case
  proof (cases "t \<in> fst ` set zs")
    case True
    from Cons.IH [OF True, of "c((t0, l) \<mapsto> v0)"]
    obtain v where "v \<in> snd ` set zs" "write_cache l (c((t0, l) \<mapsto> v0)) zs (t, l) = Some v"
      by blast
    then have "v \<in> snd ` set (z # zs)" "write_cache l c (z # zs) (t, l) = Some v"
      unfolding z write_cache_Cons by simp_all
    then show ?thesis by blast
  next
    case False
    with Cons.prems z have "t = t0" by auto
    with False z have "write_cache l c (z # zs) (t, l) = Some v0"
      using write_cache_last [of t zs l c "[]" v0] by simp
    with z show ?thesis by auto
  qed
qed

lemma write_cache_last_occurrence:
  assumes "k < length uts" "length new = length uts"
    and "uts ! k \<notin> set (drop (Suc k) uts)"
  shows "write_cache l c (zip uts new) (uts ! k, l) = Some (new ! k)"
proof -
  define A where "A = take k (zip uts new)"
  define B where "B = drop (Suc k) (zip uts new)"
  have kz: "k < length (zip uts new)"
    using assms(1,2) by simp
  have nz: "zip uts new ! k = (uts ! k, new ! k)"
    using assms(1,2) by simp
  have e: "zip uts new = A @ (uts ! k, new ! k) # B"
    unfolding A_def B_def nz [symmetric] by (rule id_take_nth_drop [OF kz])
  have "uts ! k \<notin> fst ` set B"
    unfolding B_def using assms(3) by (auto simp: drop_zip dest: set_zip_leftD)
  then have "write_cache l c (A @ (uts ! k, new ! k) # B) (uts ! k, l) = Some (new ! k)"
    by (rule write_cache_last)
  then show ?thesis by (simp only: e)
qed

lemma length_handle_failed_translations [simp]:
  "length (handle_failed_translations uis texts tr) = length tr"
  by (induction uis arbitrary: tr) auto

lemma handle_failed_translations_nth:
  "\<forall>i \<in> set uis. i < length tr \<Longrightarrow> j < length tr
   \<Longrightarrow> handle_failed_translations uis texts tr ! j
       = (if j \<in> set uis \<and> tr ! j = None then Some (texts ! j) else tr ! j)"
proof (induction uis arbitrary: tr)
  case Nil
  then show ?case by simp
next
  case (Cons i uis)
  let ?tr = "if tr ! i = None then tr[i := Some (texts ! i)] else tr"
  have "handle_failed_translations (i # uis) texts tr ! j
      = handle_failed_translations uis texts ?tr ! j"
    by simp
  also have "\<dots> = (if j \<in> set uis \<and> ?tr ! j = None then Some (texts ! j) else ?tr ! j)"
    using Cons.prems by (intro Cons.IH) auto
  also have "\<dots> = (if j \<in> set (i # uis) \<and> tr ! j = None then Some (texts ! j) else tr ! j)"
    using Cons.prems by (auto simp: nth_list_update)
  finally show ?case .
qed

section \<open>The entry point by cases\<close>

lemma get_cached_translations_uncached:
  "get_cached_translations cache texts target_lang (replicate (length texts) None)
   = (map fst (filter (\<lambda>(j, t). uncached cache target_lang t) (enumerate 0 texts)),
      filter (uncached cache target_lang) texts,
      map (\<lambda>t. cache (t, target_lang)) texts)"
  unfolding uncached_def by (rule get_cached_translations_closed)

lemma translate_batch_unfold:
  assumes "texts \<noteq> []"
  shows "translate_batch model fuel texts target_lang st =
     (case get_cached_translations (translation_cache st) (map preprocess_text texts) target_lang
             (replicate (length (map preprocess_text texts)) None) of
        (uncached_indices, uncached_texts, translations) \<Rightarrow>
          if uncached_texts \<noteq> [] then
            (case call_translation_api model fuel 0 uncached_texts target_lang st of
               None \<Rightarrow> None
             | Some (Inl err, st1) \<Rightarrow> Some (Inl err, st1)
             | Some (Inr new_translations, st1) \<Rightarrow>
                 (if new_translations \<noteq> None \<and> new_translations \<noteq> Some []
                  then
                    (case store_translations target_lang uncached_indices uncached_texts
                            (the new_translations) (translation_cache st1, translations) of
                       Inl err \<Rightarrow> Some (Inl err, st1)
                     | Inr (cache, translations1) \<Rightarrow>
                         Some (Inr translations1, st1\<lparr>translation_cache := cache\<rparr>))
                  else
                    Some (Inr (handle_failed_translations uncached_indices
                                 (map preprocess_text texts) translations), st1)))
          else Some (Inr translations, st))"
  using assms by (simp add: translate_batch_def Let_def)

lemma translate_batch_all_cached:
  assumes "texts \<noteq> []"
    and "filter (uncached (translation_cache st) target_lang) (map preprocess_text texts) = []"
  shows "translate_batch model fuel texts target_lang st
         = Some (Inr (map (\<lambda>t. translation_cache st (preprocess_text t, target_lang)) texts), st)"
  unfolding translate_batch_unfold [OF assms(1)] get_cached_translations_uncached
  using assms(2) by (simp add: comp_def)

lemma translate_batch_failed:
  assumes "filter (uncached (translation_cache st) target_lang) (map preprocess_text texts) \<noteq> []"
    and "call_translation_api model fuel 0
           (filter (uncached (translation_cache st) target_lang) (map preprocess_text texts))
           target_lang st = Some (Inr None, st1)"
  shows "translate_batch model fuel texts target_lang st
         = Some (Inr (map (\<lambda>t. Some (case translation_cache st (preprocess_text t, target_lang) of
                                        Some v \<Rightarrow> v | None \<Rightarrow> preprocess_text t)) texts), st1)"
proof -
  let ?pts = "map preprocess_text texts"
  let ?c = "translation_cache st"
  let ?uis = "map fst (filter (\<lambda>(j, t). uncached ?c target_lang t) (enumerate 0 ?pts))"
  let ?tr = "map (\<lambda>t. ?c (t, target_lang)) ?pts"
  from assms(1) have ne: "texts \<noteq> []" by auto
  have eq: "translate_batch model fuel texts target_lang st
         = Some (Inr (handle_failed_translations ?uis ?pts ?tr), st1)"
    unfolding translate_batch_unfold [OF ne] get_cached_translations_uncached
    using assms by simp
  have "handle_failed_translations ?uis ?pts ?tr
      = map (\<lambda>t. Some (case ?c (preprocess_text t, target_lang) of
                          Some v \<Rightarrow> v | None \<Rightarrow> preprocess_text t)) texts"
  proof (rule nth_equalityI)
    show "length (handle_failed_translations ?uis ?pts ?tr) = length (map (\<lambda>t. Some (case ?c (preprocess_text t, target_lang) of
                          Some v \<Rightarrow> v | None \<Rightarrow> preprocess_text t)) texts)"
      by simp
  next
    fix j assume "j < length (handle_failed_translations ?uis ?pts ?tr)"
    then have j: "j < length texts" by simp
    have r: "\<forall>i \<in> set ?uis. i < length ?tr"
      unfolding uncached_indices_set by simp
    have "handle_failed_translations ?uis ?pts ?tr ! j
        = (if j \<in> set ?uis \<and> ?tr ! j = None then Some (?pts ! j) else ?tr ! j)"
      using j by (intro handle_failed_translations_nth [OF r]) simp
    also have "\<dots> = Some (case ?c (preprocess_text (texts ! j), target_lang) of
                          Some v \<Rightarrow> v | None \<Rightarrow> preprocess_text (texts ! j))"
      using j unfolding uncached_indices_set
      by (auto simp: uncached_def split: option.splits)
    finally show "handle_failed_translations ?uis ?pts ?tr ! j
        = map (\<lambda>t. Some (case ?c (preprocess_text t, target_lang) of
                          Some v \<Rightarrow> v | None \<Rightarrow> preprocess_text t)) texts ! j"
      using j by simp
  qed
  with eq show ?thesis by simp
qed

lemma translate_batch_succeeded:
  assumes "filter (uncached (translation_cache st) target_lang) (map preprocess_text texts) \<noteq> []"
    and "call_translation_api model fuel 0
           (filter (uncached (translation_cache st) target_lang) (map preprocess_text texts))
           target_lang st = Some (Inr (Some new), st1)"
  shows "translate_batch model fuel texts target_lang st
         = Some (Inr (write_slots
                        (map (\<lambda>t. translation_cache st (preprocess_text t, target_lang)) texts)
                        (zip (map fst (filter (\<lambda>(j, t). uncached (translation_cache st) target_lang t)
                                         (enumerate 0 (map preprocess_text texts)))) new)),
                 st1\<lparr>translation_cache :=
                       write_cache target_lang (translation_cache st)
                         (zip (filter (uncached (translation_cache st) target_lang)
                                 (map preprocess_text texts)) new)\<rparr>)"
proof -
  let ?pts = "map preprocess_text texts"
  let ?c = "translation_cache st"
  let ?uts = "filter (uncached ?c target_lang) ?pts"
  let ?uis = "map fst (filter (\<lambda>(j, t). uncached ?c target_lang t) (enumerate 0 ?pts))"
  from assms(1) have ne: "texts \<noteq> []" by auto
  have len: "length new = length ?uts"
    by (rule call_translation_api_length [OF assms(2)])
  have nn: "new \<noteq> []"
  proof
    assume "new = []"
    with len have "length ?uts = 0" by simp
    then have "?uts = []" by (simp only: length_0_conv)
    with assms(1) show False by blast
  qed
  have c1: "translation_cache st1 = ?c"
    by (rule call_translation_api_cache [OF assms(2)])
  have st: "store_translations target_lang ?uis ?uts new (?c, map (\<lambda>t. ?c (t, target_lang)) ?pts)
      = Inr (write_cache target_lang ?c (zip ?uts new),
             write_slots (map (\<lambda>t. ?c (t, target_lang)) ?pts) (zip ?uis new))"
    by (rule store_translations_closed) (simp_all add: len uncached_length)
  show ?thesis
    unfolding translate_batch_unfold [OF ne] get_cached_translations_uncached
    using assms nn by (simp add: c1 st [unfolded map_map comp_def] comp_def)
qed

section \<open>Fallback after exhausted retries\<close>

lemma call_translation_api_always_failing:
  assumes "\<forall>s req. \<exists>e r. model s req target_lang = (RaiseException e, r)"
  shows "attempt < MAX_RETRIES \<Longrightarrow> MAX_RETRIES - attempt \<le> fuel
    \<Longrightarrow> \<exists>st'. call_translation_api model fuel attempt texts target_lang st = Some (Inr None, st')
           \<and> length (filter is_request (events st'))
               = length (filter is_request (events st)) + (MAX_RETRIES - attempt)"
proof (induction fuel arbitrary: attempt st)
  case 0
  then show ?case by simp
next
  case (Suc fuel)
  from assms obtain e r where m: "model (remote st) texts target_lang = (RaiseException e, r)"
    by blast
  define st1 where "st1 = st\<lparr>remote := r, events := events st @ [Request texts target_lang]\<rparr>"
  define st2 where "st2 = (if sublist QUOTA_EXHAUST_ERROR e
                           then sleep QUOTA_EXHAUST_ERROR_DELAY st1 else st1)"
  have tb: "try_block texts (generate_content model texts target_lang st) = (RaiseException e, st1)"
    by (simp add: generate_content_def try_block_def m st1_def)
  have ev2: "length (filter is_request (events st2)) = length (filter is_request (events st)) + 1"
    by (simp add: st2_def st1_def sleep_def)
  from Suc.prems have na: "\<not> MAX_RETRIES \<le> attempt" by simp
  show ?case
  proof (cases "attempt = MAX_RETRIES - 1")
    case True
    have "call_translation_api model (Suc fuel) attempt texts target_lang st = Some (Inr None, st2)"
      using na True by (simp add: tb st2_def)
    moreover have "MAX_RETRIES - attempt = 1"
      using True by (simp add: MAX_RETRIES_def)
    ultimately show ?thesis using ev2 by simp
  next
    case False
    have step: "call_translation_api model (Suc fuel) attempt texts target_lang st
        = call_translation_api model fuel (Suc attempt) texts target_lang (sleep RETRY_DELAY st2)"
      using na False by (simp add: tb st2_def)
    from False Suc.prems have "Suc attempt < MAX_RETRIES" "MAX_RETRIES - Suc attempt \<le> fuel"
      by simp_all
    from Suc.IH [OF this, of "sleep RETRY_DELAY st2"]
    obtain st' where
      r: "call_translation_api model fuel (Suc attempt) texts target_lang (sleep RETRY_DELAY st2)
            = Some (Inr None, st')"
      and ev: "length (filter is_request (events st'))
            = length (filter is_request (events (sleep RETRY_DELAY st2))) + (MAX_RETRIES - Suc attempt)"
      by blast
    have "length (filter is_request (events (sleep RETRY_DELAY st2)))
            = length (filter is_request (events st)) + 1"
      using ev2 by (simp add: sleep_def)
    with ev Suc.prems have "length (filter is_request (events st'))
            = length (filter is_request (events st)) + (MAX_RETRIES - attempt)"
      by simp
    with r step show ?thesis by simp
  qed
qed

text \<open>
  Claim C3, as the code has it. When every request for the target language raises an
  exception that is not a \<open>ValueError\<close>, \<open>translate_batch\<close> returns: every slot holds a
  string, the cached translation for a cached text and otherwise the normalised text
  (the result of \<open>_preprocess_text\<close>, which is what \<open>texts\<close> names after line 35); the cache
  is unchanged; and exactly \<open>MAX_RETRIES\<close> requests have been made when some text was
  uncached, none otherwise.
\<close>

theorem fallback_returns_normalized_text:
  assumes "\<forall>s req. \<exists>e r. model s req target_lang = (RaiseException e, r)"
    and "MAX_RETRIES \<le> fuel"
  shows "\<exists>st'. translate_batch model fuel texts target_lang st
           = Some (Inr (map (\<lambda>t. Some (case translation_cache st (preprocess_text t, target_lang) of
                                          Some v \<Rightarrow> v | None \<Rightarrow> preprocess_text t)) texts), st')
         \<and> translation_cache st' = translation_cache st
         \<and> length (filter is_request (events st'))
             = length (filter is_request (events st))
               + (if filter (uncached (translation_cache st) target_lang)
                       (map preprocess_text texts) = [] then 0 else MAX_RETRIES)"
proof (cases "filter (uncached (translation_cache st) target_lang) (map preprocess_text texts) = []")
  case True
  show ?thesis
  proof (cases "texts = []")
    case e: True
    then show ?thesis by (simp add: translate_batch_def)
  next
    case ne: False
    have "map (\<lambda>t. translation_cache st (preprocess_text t, target_lang)) texts
        = map (\<lambda>t. Some (case translation_cache st (preprocess_text t, target_lang) of
                            Some v \<Rightarrow> v | None \<Rightarrow> preprocess_text t)) texts"
      using True by (auto simp: filter_empty_conv uncached_def)
    with translate_batch_all_cached [OF ne True, of model fuel] True show ?thesis by simp
  qed
next
  case False
  let ?uts = "filter (uncached (translation_cache st) target_lang) (map preprocess_text texts)"
  from call_translation_api_always_failing
         [where model = model and target_lang = target_lang and attempt = 0 and fuel = fuel
            and texts = ?uts and st = st, OF assms(1)] assms(2)
  obtain st' where r: "call_translation_api model fuel 0 ?uts target_lang st = Some (Inr None, st')"
    and ev: "length (filter is_request (events st'))
               = length (filter is_request (events st)) + MAX_RETRIES"
    by auto
  from translate_batch_failed [OF False r] call_translation_api_cache [OF r] ev False
  show ?thesis by simp
qed

text \<open>
  The theorem at the service that always answers 503, for two texts on a fresh translator.
\<close>

theorem fallback_returns_normalized_text_witness:
  "MAX_RETRIES \<le> 10
   \<and> map_option fst (translate_batch always_transient 10 ['' hello'', ''world''] ''French'' (init ()))
       = Some (Inr [Some ''hello'', Some ''world''])
   \<and> map_option (length \<circ> filter is_request \<circ> events \<circ> snd)
        (translate_batch always_transient 10 ['' hello'', ''world''] ''French'' (init ()))
       = Some 10"
proof -
  have h1: "\<forall>s req. \<exists>e r. always_transient s req ''French'' = (RaiseException e, r)"
    by (simp add: always_transient_def)
  have h2: "MAX_RETRIES \<le> 10"
    by (simp add: MAX_RETRIES_def)
  have p: "preprocess_text '' hello'' = ''hello''" "preprocess_text ''world'' = ''world''"
    by code_simp+
  have u: "filter (uncached (translation_cache (init ())) ''French'')
             (map preprocess_text ['' hello'', ''world'']) \<noteq> []"
    by (simp add: p init_def uncached_def)
  from fallback_returns_normalized_text
         [where model = always_transient and target_lang = "''French''" and fuel = 10
            and texts = "['' hello'', ''world'']" and st = "init ()", OF h1 h2]
  obtain st' where
    r: "translate_batch always_transient 10 ['' hello'', ''world''] ''French'' (init ())
          = Some (Inr (map (\<lambda>t. Some (case translation_cache (init ()) (preprocess_text t, ''French'') of
                                          Some v \<Rightarrow> v | None \<Rightarrow> preprocess_text t))
                         ['' hello'', ''world'']), st')"
    and ev: "length (filter is_request (events st'))
             = length (filter is_request (events (init ())))
               + (if filter (uncached (translation_cache (init ())) ''French'')
                       (map preprocess_text ['' hello'', ''world'']) = [] then 0 else MAX_RETRIES)"
    by blast
  from ev u have ev': "length (filter is_request (events st')) = 10"
    by (simp add: init_def MAX_RETRIES_def)
  have m: "map (\<lambda>t. Some (case translation_cache (init ()) (preprocess_text t, ''French'') of
                            Some v \<Rightarrow> v | None \<Rightarrow> preprocess_text t)) ['' hello'', ''world'']
           = [Some ''hello'', Some ''world'']"
    by (simp add: p init_def)
  show ?thesis
    unfolding r m using h2 ev' by simp
qed

text \<open>
  The claim C3 as it is written fails: the fallback for the input \<open>" hello"\<close> is
  \<open>"hello"\<close>, not the input text verbatim.
\<close>

theorem fallback_is_not_the_verbatim_input:
  "map_option fst (translate_batch always_transient 10 ['' hello''] ''French'' (init ()))
     = Some (Inr [Some ''hello''])
   \<and> map_option fst (translate_batch always_transient 10 ['' hello''] ''French'' (init ()))
     \<noteq> Some (Inr [Some '' hello''])"
proof -
  have p: "preprocess_text '' hello'' = ''hello''"
    by code_simp
  have u: "filter (uncached (translation_cache (init ())) ''French'')
             (map preprocess_text ['' hello'']) = [''hello'']"
    by (simp add: p init_def uncached_def)
  have h1: "\<forall>s req. \<exists>e r. always_transient s req ''French'' = (RaiseException e, r)"
    by (simp add: always_transient_def)
  from call_translation_api_always_failing
         [where model = always_transient and target_lang = "''French''" and attempt = 0
            and fuel = 10 and texts = "[''hello'']" and st = "init ()", OF h1]
  obtain st' where
    r: "call_translation_api always_transient 10 0 [''hello''] ''French'' (init ())
          = Some (Inr None, st')"
    by (auto simp: MAX_RETRIES_def)
  have "translate_batch always_transient 10 ['' hello''] ''French'' (init ())
          = Some (Inr (map (\<lambda>t. Some (case translation_cache (init ()) (preprocess_text t, ''French'') of
                                         Some v \<Rightarrow> v | None \<Rightarrow> preprocess_text t)) ['' hello'']), st')"
    by (rule translate_batch_failed) (simp_all only: u r, simp)
  then have e: "map_option fst (translate_batch always_transient 10 ['' hello''] ''French'' (init ()))
     = Some (Inr [Some ''hello''])"
    by (simp add: p init_def)
  show ?thesis unfolding e by simp
qed

section \<open>Cache hits\<close>

lemma translate_batch_cached_general:
  assumes "texts \<noteq> []"
    and "\<forall>t \<in> set texts. translation_cache st (preprocess_text t, target_lang) \<noteq> None"
  shows "translate_batch model fuel texts target_lang st
         = Some (Inr (map (\<lambda>t. translation_cache st (preprocess_text t, target_lang)) texts), st)"
proof -
  have "filter (uncached (translation_cache st) target_lang) (map preprocess_text texts) = []"
    using assms(2) by (auto simp: filter_empty_conv uncached_def)
  with assms(1) show ?thesis by (rule translate_batch_all_cached)
qed


lemma first_call_hello:
  "translate_batch tagging 1 [''hello''] ''French'' (init ()) = Some (Inr [Some ''T:hello''], hello_cached)"
  by (simp add: translate_batch_def get_cached_translations_def generate_content_def try_block_def
        tagging_def sleep_def init_def tag_def preprocess_text_hello MAX_RETRIES_def
        REQUEST_DELAY_def hello_cached_def)

section \<open>Single answers of the service\<close>

lemma call_translation_api_degraded:
  assumes "model (remote st) texts target_lang = (RaiseValueError e, r)"
    and "\<not> sublist COUNT_MISMATCH e"
    and "attempt < MAX_RETRIES"
  shows "call_translation_api model (Suc fuel) attempt texts target_lang st
         = Some (Inr (Some (replicate (length texts) [])),
                 st\<lparr>remote := r, events := events st @ [Request texts target_lang]\<rparr>)"
proof -
  from assms(3) have a: "\<not> MAX_RETRIES \<le> attempt" by simp
  show ?thesis
    using assms(1,2) a by (simp add: generate_content_def try_block_def)
qed

lemma fst_set_zip_eq:
  "length xs = length ys \<Longrightarrow> fst ` set (zip xs ys) = set xs"
  by (metis map_fst_zip set_map)

lemma write_slots_uncached:
  assumes "length new = length (filter P pts)" "j < length pts" "P (pts ! j)"
  shows "\<exists>v \<in> set new.
           write_slots (map c pts) (zip (map fst (filter (\<lambda>(j, t). P t) (enumerate 0 pts))) new) ! j
             = Some v"
proof -
  let ?uis = "map fst (filter (\<lambda>(j, t). P t) (enumerate 0 pts))"
  have len: "length ?uis = length new"
    using assms(1) by (simp add: uncached_length)
  from assms(2,3) have "j \<in> set ?uis"
    unfolding uncached_indices_set by simp
  then obtain k where k: "k < length ?uis" "?uis ! k = j"
    by (metis in_set_conv_nth)
  with len have "(j, new ! k) \<in> set (zip ?uis new)"
    by (auto simp: in_set_zip simp del: length_map intro!: exI [of _ k])
  moreover have "distinct (map fst (zip ?uis new))"
    using len uncached_indices_distinct [of P 0 pts] by (simp only: map_fst_zip)
  ultimately have "write_slots (map c pts) (zip ?uis new) ! j = Some (new ! k)"
    using assms(2) by (intro write_slots_written) simp_all
  moreover have "new ! k \<in> set new"
    using k(1) len by simp
  ultimately show ?thesis by blast
qed

lemma write_slots_cached:
  assumes "j < length pts" "\<not> P (pts ! j)"
  shows "write_slots (map c pts) (zip (map fst (filter (\<lambda>(j, t). P t) (enumerate 0 pts))) new) ! j
           = c (pts ! j)"
proof -
  let ?uis = "map fst (filter (\<lambda>(j, t). P t) (enumerate 0 pts))"
  have "j \<notin> set ?uis"
    unfolding uncached_indices_set using assms(2) by simp
  then have "j \<notin> fst ` set (zip ?uis new)"
    by (auto dest: set_zip_leftD)
  then have "write_slots (map c pts) (zip ?uis new) ! j = map c pts ! j"
    by (rule write_slots_other)
  with assms(1) show ?thesis by simp
qed

lemma map_constant:
  "\<forall>x \<in> set xs. f x = c \<Longrightarrow> map f xs = replicate (length xs) c"
  by (induction xs) simp_all

lemma preprocess_text_a_b: "preprocess_text ''a'' = ''a''" "preprocess_text ''b'' = ''b''"
  by code_simp+

lemma call_translation_api_success:
  assumes "model (remote st) texts target_lang = (Json new, r)"
    and "length new = length texts"
    and "attempt < MAX_RETRIES"
  shows "call_translation_api model (Suc fuel) attempt texts target_lang st
         = Some (Inr (Some new),
                 st\<lparr>remote := r,
                     events := events st @ [Request texts target_lang, Sleep REQUEST_DELAY]\<rparr>)"
proof -
  from assms(3) have a: "\<not> MAX_RETRIES \<le> attempt" by simp
  show ?thesis
    using assms(1,2) a by (simp add: generate_content_def try_block_def sleep_def)
qed

section \<open>Independence of the recursion bound\<close>

text \<open>
  A call that returns within a bound returns the same value and state within every larger
  bound, so a result computed for one bound is the result of the program.
\<close>

lemma call_translation_api_fuel_mono:
  "call_translation_api model fuel attempt texts target_lang st = Some res
   \<Longrightarrow> call_translation_api model (fuel + k) attempt texts target_lang st = Some res"
proof (induction fuel arbitrary: attempt texts st res)
  case 0
  then show ?case by simp
next
  case (Suc fuel)
  show ?case
  proof (cases "attempt \<ge> MAX_RETRIES")
    case True
    with Suc.prems show ?thesis by simp
  next
    case False
    obtain resp st1 where tb:
      "try_block texts (generate_content model texts target_lang st) = (resp, st1)"
      by (cases "try_block texts (generate_content model texts target_lang st)") auto
    show ?thesis
    proof (cases resp)
      case (Json new)
      with Suc.prems False tb show ?thesis by simp
    next
      case (RaiseValueError e)
      show ?thesis
      proof (cases "sublist COUNT_MISMATCH e")
        case True
        let ?m = "length texts div 2"
        from Suc.prems False tb RaiseValueError True
        obtain r1 st2 where
          h1: "call_translation_api model fuel 0 (take ?m texts) target_lang st1 = Some (r1, st2)"
          by (auto split: option.splits sum.splits prod.splits)
        note m1 = Suc.IH [OF h1]
        show ?thesis
        proof (cases r1)
          case (Inl err)
          from Suc.prems False tb RaiseValueError True h1 Inl have "res = (Inl err, st2)"
            by simp
          with False tb RaiseValueError True m1 Inl show ?thesis by simp
        next
          case (Inr a)
          with Suc.prems False tb RaiseValueError True h1
          obtain r2 st3 where
            h2: "call_translation_api model fuel 0 (drop ?m texts) target_lang st2 = Some (r2, st3)"
            by (auto split: option.splits sum.splits prod.splits)
          note m2 = Suc.IH [OF h2]
          show ?thesis
          proof (cases r2)
            case l2: (Inl err2)
            from Suc.prems False tb RaiseValueError True h1 h2 Inr l2
            have "res = (Inl err2, st3)"
              by simp
            with False tb RaiseValueError True m1 m2 Inr l2 show ?thesis by simp
          next
            case r2: (Inr b)
            from Suc.prems False tb RaiseValueError True h1 h2 Inr r2
            have "res = (concat_halves a b, st3)"
              by simp
            with False tb RaiseValueError True m1 m2 Inr r2 show ?thesis by simp
          qed
        qed
      next
        case nomatch: False
        with Suc.prems False tb RaiseValueError show ?thesis by simp
      qed
    next
      case (RaiseException e)
      with Suc.prems False tb show ?thesis
        by (auto simp: Let_def split: if_splits dest: Suc.IH)
    qed
  qed
qed

lemma translate_batch_fuel_mono:
  assumes a: "translate_batch model fuel texts target_lang st = Some res"
  shows "translate_batch model (fuel + k) texts target_lang st = Some res"
proof (cases "texts = []")
  case True
  with a show ?thesis by (simp add: translate_batch_def)
next
  case False
  let ?uts = "filter (uncached (translation_cache st) target_lang) (map preprocess_text texts)"
  note unf = translate_batch_unfold [OF False] get_cached_translations_uncached
  show ?thesis
  proof (cases "?uts = []")
    case True
    with a show ?thesis unfolding unf by simp
  next
    case ne: False
    show ?thesis
    proof (cases "call_translation_api model fuel 0 ?uts target_lang st")
      case None
      with a ne show ?thesis unfolding unf by simp
    next
      case (Some r)
      note m = call_translation_api_fuel_mono [OF Some, of k]
      from a show ?thesis
        unfolding unf by (simp add: ne Some m)
    qed
  qed
qed

section \<open>The shape of a returned result\<close>

text \<open>
  Whenever \<open>translate_batch\<close> returns a list, the list has the length of the input and
  every slot holds a string.
\<close>

lemma translate_batch_result_shape:
  assumes a: "translate_batch model fuel texts target_lang st = Some (Inr res, st')"
  shows "length res = length texts \<and> (\<forall>i < length texts. res ! i \<noteq> None)"
proof (cases "texts = []")
  case True
  with a show ?thesis by (simp add: translate_batch_def)
next
  case False
  let ?c = "translation_cache st"
  let ?pts = "map preprocess_text texts"
  let ?P = "uncached ?c target_lang"
  let ?uts = "filter ?P ?pts"
  let ?uis = "map fst (filter (\<lambda>(j, t). ?P t) (enumerate 0 ?pts))"
  note unf = translate_batch_unfold [OF False] get_cached_translations_uncached
  show ?thesis
  proof (cases "?uts = []")
    case True
    with a have r: "res = map (\<lambda>t. ?c (t, target_lang)) ?pts"
      unfolding unf by auto
    from True have "\<forall>i < length texts. ?c (?pts ! i, target_lang) \<noteq> None"
      by (auto simp: filter_empty_conv uncached_def)
    with r show ?thesis by simp
  next
    case ne: False
    show ?thesis
    proof (cases "call_translation_api model fuel 0 ?uts target_lang st")
      case None
      with a ne show ?thesis unfolding unf by simp
    next
      case (Some x)
      obtain y st1 where x: "x = (y, st1)" by (cases x)
      show ?thesis
      proof (cases y)
        case (Inl err)
        with a ne Some x show ?thesis unfolding unf by simp
      next
        case (Inr new_opt)
        show ?thesis
        proof (cases new_opt)
          case n: None
          from Some x Inr n have c: "call_translation_api model fuel 0 ?uts target_lang st = Some (Inr None, st1)"
            by simp
          from translate_batch_failed [OF ne c] a show ?thesis by auto
        next
          case s: (Some new)
          from Some x Inr s
          have c: "call_translation_api model fuel 0 ?uts target_lang st = Some (Inr (Some new), st1)"
            by simp
          have len: "length new = length ?uts"
            by (rule call_translation_api_length [OF c])
          have tr: "map (\<lambda>t. ?c (preprocess_text t, target_lang)) texts
               = map (\<lambda>t. ?c (t, target_lang)) ?pts"
            by simp
          from translate_batch_succeeded [OF ne c] a
          have r: "res = write_slots (map (\<lambda>t. ?c (t, target_lang)) ?pts) (zip ?uis new)"
            unfolding tr by simp
          have "\<forall>i < length texts. res ! i \<noteq> None"
          proof (intro allI impI)
            fix i assume "i < length texts"
            then have i: "i < length ?pts" by simp
            show "res ! i \<noteq> None"
            proof (cases "?P (?pts ! i)")
              case True
              from write_slots_uncached
                     [where P = ?P and pts = ?pts and j = i and new = new
                        and c = "\<lambda>t. ?c (t, target_lang)", OF len i True]
              show ?thesis unfolding r by auto
            next
              case False
              from write_slots_cached
                     [where P = ?P and pts = ?pts and j = i and new = new
                        and c = "\<lambda>t. ?c (t, target_lang)", OF i False]
              have "res ! i = ?c (?pts ! i, target_lang)"
                unfolding r .
              moreover from False have "?c (?pts ! i, target_lang) \<noteq> None"
                by (simp add: uncached_def)
              ultimately show ?thesis by simp
            qed
          qed
          moreover have "length res = length texts"
            unfolding r by simp
          ultimately show ?thesis by blast
        qed
      qed
    qed
  qed
qed

text \<open>
  Claim C4 fails on the code. The first answer for two texts is too short, so the call
  splits; each half then exhausts its retries and returns \<open>None\<close>; \<open>first_half + second_half\<close>
  raises a \<open>TypeError\<close> inside the \<open>except\<close> clause, which nothing catches:
  \<open>translate_batch\<close> ends with this exception, for every bound from 11 on.
\<close>

theorem translate_batch_raises_TypeError:
  "map_option fst (translate_batch short_then_down (11 + k) [''a'', ''b''] ''French'' (init 0))
     = Some (Inl TypeError)"
proof -
  have "map_option fst (translate_batch short_then_down 11 [''a'', ''b''] ''French'' (init 0))
     = Some (Inl TypeError)"
    by code_simp
  then obtain st' where
    "translate_batch short_then_down 11 [''a'', ''b''] ''French'' (init 0) = Some (Inl TypeError, st')"
    by auto
  from translate_batch_fuel_mono [OF this, of k] show ?thesis by simp
qed

section \<open>The first event of a call\<close>

lemma try_block_events:
  "try_block texts (generate_content model texts target_lang st) = (resp, st1)
   \<Longrightarrow> \<exists>rest. events st1 = events st @ Request texts target_lang # rest"
  by (auto simp: try_block_def generate_content_def sleep_def
           split: prod.splits response.splits if_splits)

lemma call_translation_api_first_request:
  "call_translation_api model fuel attempt texts target_lang st = Some (res, st')
   \<Longrightarrow> attempt < MAX_RETRIES
   \<Longrightarrow> \<exists>rest. events st' = events st @ Request texts target_lang # rest"
proof (induction fuel arbitrary: attempt texts st res st')
  case 0
  then show ?case by simp
next
  case (Suc fuel)
  from Suc.prems(2) have na: "\<not> MAX_RETRIES \<le> attempt" by simp
  have zero: "0 < MAX_RETRIES" by (rule MAX_RETRIES_pos)
  obtain resp st1 where tb:
    "try_block texts (generate_content model texts target_lang st) = (resp, st1)"
    by (cases "try_block texts (generate_content model texts target_lang st)") auto
  from try_block_events [OF tb] obtain rest1 where
    e1: "events st1 = events st @ Request texts target_lang # rest1"
    by blast
  show ?case
  proof (cases resp)
    case (Json new)
    with Suc.prems(1) na tb e1 show ?thesis by auto
  next
    case (RaiseValueError e)
    show ?thesis
    proof (cases "sublist COUNT_MISMATCH e")
      case True
      let ?m = "length texts div 2"
      from Suc.prems(1) na tb RaiseValueError True
      obtain r1 st2 where
        h1: "call_translation_api model fuel 0 (take ?m texts) target_lang st1 = Some (r1, st2)"
        by (auto split: option.splits sum.splits prod.splits)
      from Suc.IH [OF h1 zero] e1 obtain rest2 where
        e2: "events st2 = events st @ Request texts target_lang # rest2"
        by auto
      show ?thesis
      proof (cases r1)
        case (Inl err)
        with Suc.prems(1) na tb RaiseValueError True h1 e2 show ?thesis by auto
      next
        case (Inr a)
        with Suc.prems(1) na tb RaiseValueError True h1
        obtain r2 st3 where
          h2: "call_translation_api model fuel 0 (drop ?m texts) target_lang st2 = Some (r2, st3)"
          and "st' = st3"
          by (auto split: option.splits sum.splits prod.splits)
        with Suc.IH [OF h2 zero] e2 show ?thesis by auto
      qed
    next
      case nomatch: False
      with Suc.prems(1) na tb RaiseValueError e1 show ?thesis by auto
    qed
  next
    case (RaiseException e)
    define st2 where "st2 = (if sublist QUOTA_EXHAUST_ERROR e
                             then sleep QUOTA_EXHAUST_ERROR_DELAY st1 else st1)"
    have e2: "\<exists>rest. events st2 = events st @ Request texts target_lang # rest"
      using e1 by (simp add: st2_def sleep_def)
    show ?thesis
    proof (cases "attempt = MAX_RETRIES - 1")
      case True
      with Suc.prems(1) na tb RaiseException have "st' = st2"
        by (simp add: st2_def)
      with e2 show ?thesis by simp
    next
      case False
      with Suc.prems(1) na tb RaiseException
      have h: "call_translation_api model fuel (Suc attempt) texts target_lang
                 (sleep RETRY_DELAY st2) = Some (res, st')"
        by (simp add: st2_def)
      from False Suc.prems(2) have "Suc attempt < MAX_RETRIES" by simp
      from Suc.IH [OF h this] e2 show ?thesis
        by (auto simp: sleep_def)
    qed
  qed
qed

section \<open>Duplicates within one call\<close>

text \<open>
  Claim C10. Let the call on the uncached texts return a list (at once, after retries or
  after splits). The \<open>uncached_texts\<close> that \<open>_get_cached_translations\<close> returns are the
  normalised texts filtered by absence from the cache, in order, every occurrence of a
  duplicate included, and the first request of the call carries this whole list. The
  returned list has the same length. The cache afterwards is the old cache with one write
  per pair of an uncached text and its translation, in order, so the entry of a text ends
  with the translation of its last occurrence. The indices in \<open>uncached_indices\<close> are
  distinct positions of the input; position \<open>uncached_indices[k]\<close> holds the k-th
  uncached text and its result slot gets the k-th translation.
\<close>

theorem no_deduplication_within_a_call:
  assumes u: "filter (uncached (translation_cache st) target_lang) (map preprocess_text texts) = uts"
    and ne: "uts \<noteq> []"
    and call: "call_translation_api model fuel 0 uts target_lang st = Some (Inr (Some new), st1)"
    and g: "get_cached_translations (translation_cache st) (map preprocess_text texts) target_lang
              (replicate (length texts) None) = (uncached_indices, uncached_texts, translations)"
  shows "\<exists>res st' rest.
      uncached_texts = uts
    \<and> length new = length uts
    \<and> translate_batch model fuel texts target_lang st = Some (Inr res, st')
    \<and> events st' = events st @ Request uts target_lang # rest
    \<and> translation_cache st' = write_cache target_lang (translation_cache st) (zip uts new)
    \<and> (\<forall>k < length uts. uts ! k \<notin> set (drop (Suc k) uts)
          \<longrightarrow> translation_cache st' (uts ! k, target_lang) = Some (new ! k))
    \<and> length res = length texts
    \<and> distinct uncached_indices
    \<and> length uncached_indices = length uts
    \<and> (\<forall>k < length uts.
          uncached_indices ! k < length texts
          \<and> map preprocess_text texts ! (uncached_indices ! k) = uts ! k
          \<and> res ! (uncached_indices ! k) = Some (new ! k))"
proof -
  let ?c = "translation_cache st"
  let ?pts = "map preprocess_text texts"
  let ?P = "uncached ?c target_lang"
  let ?uis = "map fst (filter (\<lambda>(j, t). ?P t) (enumerate 0 ?pts))"
  let ?tr = "map (\<lambda>t. ?c (preprocess_text t, target_lang)) texts"
  define st' where "st' = st1\<lparr>translation_cache := write_cache target_lang ?c (zip uts new)\<rparr>"
  define res where "res = write_slots ?tr (zip ?uis new)"
  from g get_cached_translations_uncached [of ?c ?pts target_lang]
  have ui: "uncached_indices = ?uis" and ut: "uncached_texts = uts"
    using u by simp_all
  have len: "length new = length uts"
    by (rule call_translation_api_length [OF call])
  from call_translation_api_first_request [OF call MAX_RETRIES_pos]
  obtain rest where ev1: "events st1 = events st @ Request uts target_lang # rest"
    by blast
  have ne': "filter ?P ?pts \<noteq> []"
    using u ne by simp
  have tb: "translate_batch model fuel texts target_lang st = Some (Inr res, st')"
    using translate_batch_succeeded [OF ne' call [folded u]] unfolding st'_def res_def u by simp
  have ev: "events st' = events st @ Request uts target_lang # rest"
    using ev1 by (simp add: st'_def)
  have ca: "translation_cache st' = write_cache target_lang ?c (zip uts new)"
    by (simp add: st'_def)
  have last: "\<forall>k < length uts. uts ! k \<notin> set (drop (Suc k) uts)
          \<longrightarrow> translation_cache st' (uts ! k, target_lang) = Some (new ! k)"
    unfolding ca using len by (auto intro: write_cache_last_occurrence)
  have lr: "length res = length texts"
    by (simp add: res_def)
  have di: "distinct ?uis"
    by (rule uncached_indices_distinct)
  have li: "length ?uis = length uts"
    using u by (simp add: uncached_length)
  have slots: "\<forall>k < length uts.
          ?uis ! k < length texts
          \<and> ?pts ! (?uis ! k) = uts ! k
          \<and> res ! (?uis ! k) = Some (new ! k)"
  proof (intro allI impI)
    fix k assume k: "k < length uts"
    with li have ki: "k < length ?uis" by simp
    then have "?uis ! k \<in> set ?uis" by (rule nth_mem)
    then have r1: "?uis ! k < length texts"
      unfolding uncached_indices_set by simp
    from k u have "k < length (filter ?P ?pts)" by simp
    from uncached_nth [where P = ?P and xs = ?pts and k = k, OF this] u
    have r2: "?pts ! (?uis ! k) = uts ! k" by simp
    from ki len li have "(?uis ! k, new ! k) \<in> set (zip ?uis new)"
      by (auto simp: in_set_zip simp del: length_map intro!: exI [of _ k])
    moreover have "distinct (map fst (zip ?uis new))"
      using len li di by (simp only: map_fst_zip)
    ultimately have r3: "res ! (?uis ! k) = Some (new ! k)"
      unfolding res_def using r1 by (intro write_slots_written) simp_all
    from r1 r2 r3 show "?uis ! k < length texts
          \<and> ?pts ! (?uis ! k) = uts ! k
          \<and> res ! (?uis ! k) = Some (new ! k)"
      by blast
  qed
  show ?thesis
    unfolding ui
  proof (intro exI [of _ res] exI [of _ st'] exI [of _ rest] conjI)
    show "uncached_texts = uts" by (rule ut)
    show "length new = length uts" by (rule len)
    show "translate_batch model fuel texts target_lang st = Some (Inr res, st')" by (rule tb)
    show "events st' = events st @ Request uts target_lang # rest" by (rule ev)
    show "translation_cache st' = write_cache target_lang ?c (zip uts new)" by (rule ca)
    show "\<forall>k < length uts. uts ! k \<notin> set (drop (Suc k) uts)
          \<longrightarrow> translation_cache st' (uts ! k, target_lang) = Some (new ! k)" by (rule last)
    show "length res = length texts" by (rule lr)
    show "distinct ?uis" by (rule di)
    show "length ?uis = length uts" by (rule li)
    show "\<forall>k < length uts.
          ?uis ! k < length texts
          \<and> ?pts ! (?uis ! k) = uts ! k
          \<and> res ! (?uis ! k) = Some (new ! k)" by (rule slots)
  qed
qed

text \<open>
  The theorem at the texts a, b, a on a fresh translator, with the service whose answers
  depend on the position: both occurrences of a are requested, each slot gets its own
  translation, and the cache keeps the translation of the second a.
\<close>

theorem no_deduplication_within_a_call_witness:
  "filter (uncached (translation_cache (init ())) ''French'')
      (map preprocess_text [''a'', ''b'', ''a'']) = [''a'', ''b'', ''a'']
   \<and> call_translation_api numbered 1 0 [''a'', ''b'', ''a''] ''French'' (init ())
       = Some (Inr (Some [''T:a'', ''T:b+'', ''T:a++'']),
               \<lparr>translation_cache = Map.empty, remote = (),
                events = [Request [''a'', ''b'', ''a''] ''French'', Sleep (1 / 2)]\<rparr>)
   \<and> get_cached_translations (translation_cache (init ()))
        (map preprocess_text [''a'', ''b'', ''a'']) ''French''
        (replicate (length [''a'', ''b'', ''a'']) None)
       = ([0, 1, 2], [''a'', ''b'', ''a''], [None, None, None])
   \<and> (\<exists>res st' rest.
         translate_batch numbered 1 [''a'', ''b'', ''a''] ''French'' (init ()) = Some (Inr res, st')
       \<and> events st' = Request [''a'', ''b'', ''a''] ''French'' # rest
       \<and> translation_cache st' (''a'', ''French'') = Some ''T:a++''
       \<and> translation_cache st' (''b'', ''French'') = Some ''T:b+''
       \<and> length res = 3
       \<and> res ! 0 = Some ''T:a'' \<and> res ! 1 = Some ''T:b+'' \<and> res ! 2 = Some ''T:a++'')"
proof -
  note p = preprocess_text_a_b
  define st1 :: "unit translator" where
    "st1 = \<lparr>translation_cache = Map.empty, remote = (),
            events = [Request [''a'', ''b'', ''a''] ''French'', Sleep (1 / 2)]\<rparr>"
  have h1: "filter (uncached (translation_cache (init ())) ''French'')
      (map preprocess_text [''a'', ''b'', ''a'']) = [''a'', ''b'', ''a'']"
    by (simp add: p init_def uncached_def)
  have h2: "[''a'', ''b'', ''a''] \<noteq> ([] :: string list)"
    by simp
  have m: "numbered (remote (init ())) [''a'', ''b'', ''a''] ''French''
       = (Json [''T:a'', ''T:b+'', ''T:a++''], ())"
    by (simp add: numbered_def tag_def enumerate_eq_zip upt_rec numeral_2_eq_2)
  have l: "length [''T:a'', ''T:b+'', ''T:a++''] = length [''a'', ''b'', ''a'']"
    by simp
  have h3: "call_translation_api numbered (Suc 0) 0 [''a'', ''b'', ''a''] ''French'' (init ())
       = Some (Inr (Some [''T:a'', ''T:b+'', ''T:a++'']), st1)"
    using call_translation_api_success
            [where model = numbered and st = "init ()" and texts = "[''a'', ''b'', ''a'']"
               and target_lang = "''French''" and attempt = 0 and fuel = 0, OF m l MAX_RETRIES_pos]
    by (simp add: st1_def init_def REQUEST_DELAY_def)
  have h5: "get_cached_translations (translation_cache (init ()))
        (map preprocess_text [''a'', ''b'', ''a'']) ''French''
        (replicate (length [''a'', ''b'', ''a'']) None)
       = ([0, 1, 2], [''a'', ''b'', ''a''], [None, None, None])"
    by (simp add: get_cached_translations_def p init_def numeral_2_eq_2 numeral_3_eq_3)
  from no_deduplication_within_a_call
         [where model = numbered and st = "init ()" and target_lang = "''French''"
            and texts = "[''a'', ''b'', ''a'']" and uts = "[''a'', ''b'', ''a'']"
            and new = "[''T:a'', ''T:b+'', ''T:a++'']" and fuel = "Suc 0" and ?st1.0 = st1,
          OF h1 h2 h3 h5]
  obtain res st' rest where
    tb: "translate_batch numbered (Suc 0) [''a'', ''b'', ''a''] ''French'' (init ()) = Some (Inr res, st')"
    and ev: "events st' = events (init ()) @ Request [''a'', ''b'', ''a''] ''French'' # rest"
    and last: "\<forall>k < length [''a'', ''b'', ''a''].
          [''a'', ''b'', ''a''] ! k \<notin> set (drop (Suc k) [''a'', ''b'', ''a''])
          \<longrightarrow> translation_cache st' ([''a'', ''b'', ''a''] ! k, ''French'')
              = Some ([''T:a'', ''T:b+'', ''T:a++''] ! k)"
    and lr: "length res = length [''a'', ''b'', ''a'']"
    and slots: "\<forall>k < length [''a'', ''b'', ''a''].
          [0, 1, 2] ! k < length [''a'', ''b'', ''a'']
          \<and> map preprocess_text [''a'', ''b'', ''a''] ! ([0, 1, 2] ! k) = [''a'', ''b'', ''a''] ! k
          \<and> res ! ([0, 1, 2] ! k) = Some ([''T:a'', ''T:b+'', ''T:a++''] ! k)"
    by blast
  from h3 have r0: "call_translation_api numbered 1 0 [''a'', ''b'', ''a''] ''French'' (init ())
       = Some (Inr (Some [''T:a'', ''T:b+'', ''T:a++'']),
               \<lparr>translation_cache = Map.empty, remote = (),
                events = [Request [''a'', ''b'', ''a''] ''French'', Sleep (1 / 2)]\<rparr>)"
    by (simp add: st1_def)
  from tb have r1: "translate_batch numbered 1 [''a'', ''b'', ''a''] ''French'' (init ()) = Some (Inr res, st')"
    by simp
  from ev have r2: "events st' = Request [''a'', ''b'', ''a''] ''French'' # rest"
    by (simp add: init_def)
  from last [rule_format, of 2] have r3: "translation_cache st' (''a'', ''French'') = Some ''T:a++''"
    by simp
  from last [rule_format, of 1] have r4: "translation_cache st' (''b'', ''French'') = Some ''T:b+''"
    by simp
  from lr have r5: "length res = 3" by simp
  from slots [rule_format, of 0] have r6: "res ! 0 = Some ''T:a''" by simp
  from slots [rule_format, of 1] have r7: "res ! 1 = Some ''T:b+''" by simp
  from slots [rule_format, of 2] have r8: "res ! 2 = Some ''T:a++''" by simp
  from h1 r0 h5 r1 r2 r3 r4 r5 r6 r7 r8 show ?thesis by blast
qed

section \<open>The requests of a call\<close>





section \<open>Cached texts in any call\<close>



section \<open>Cache idempotence\<close>






section \<open>Degraded calls of the recursion\<close>

lemma degraded_segments_empty_strings:
  "call_translation_api model fuel attempt texts target_lang st = Some (Inr (Some new), st')
   \<Longrightarrow> (lo, n) \<in> set (degraded_segments model fuel attempt texts target_lang st)
   \<Longrightarrow> lo + n \<le> length texts \<and> (\<forall>k < n. new ! (lo + k) = [])"
proof (induction fuel arbitrary: attempt texts st new st' lo n)
  case 0
  then show ?case by simp
next
  case (Suc fuel)
  show ?case
  proof (cases "attempt \<ge> MAX_RETRIES")
    case True
    with Suc.prems show ?thesis by simp
  next
    case na: False
    obtain resp st1 where tb:
      "try_block texts (generate_content model texts target_lang st) = (resp, st1)"
      by (cases "try_block texts (generate_content model texts target_lang st)") auto
    show ?thesis
    proof (cases resp)
      case (Json answer)
      with Suc.prems(2) na tb show ?thesis by simp
    next
      case (RaiseValueError e)
      show ?thesis
      proof (cases "sublist COUNT_MISMATCH e")
        case True
        let ?m = "length texts div 2"
        from Suc.prems(1) na tb RaiseValueError True
        obtain x y st2 st3 where
          h1: "call_translation_api model fuel 0 (take ?m texts) target_lang st1 = Some (Inr x, st2)"
          and h2: "call_translation_api model fuel 0 (drop ?m texts) target_lang st2 = Some (Inr y, st3)"
          and c: "concat_halves x y = Inr (Some new)"
          by (auto split: option.splits sum.splits prod.splits)
        from c obtain a b where ab: "x = Some a" "y = Some b" "new = a @ b"
          by (cases x; cases y) auto
        note h1' = h1 [unfolded ab]
        note h2' = h2 [unfolded ab]
        have la: "length a = ?m"
          using call_translation_api_length [OF h1'] by simp
        have lb: "length b = length texts - ?m"
          using call_translation_api_length [OF h2'] by simp
        from Suc.prems(2) na tb RaiseValueError True h1
        have "(lo, n) \<in> set (degraded_segments model fuel 0 (take ?m texts) target_lang st1)
              \<or> (\<exists>lo'. lo = ?m + lo'
                    \<and> (lo', n) \<in> set (degraded_segments model fuel 0 (drop ?m texts) target_lang st2))"
          by auto
        then show ?thesis
        proof
          assume "(lo, n) \<in> set (degraded_segments model fuel 0 (take ?m texts) target_lang st1)"
          from Suc.IH [OF h1' this]
          have b1: "lo + n \<le> length (take ?m texts)" and e1: "\<forall>k < n. a ! (lo + k) = []"
            by simp_all
          from b1 have b2: "lo + n \<le> ?m" by simp
          have "\<forall>k < n. new ! (lo + k) = []"
          proof (intro allI impI)
            fix k assume "k < n"
            with b2 la have "lo + k < length a" by simp
            then have "new ! (lo + k) = a ! (lo + k)"
              unfolding ab by (simp add: nth_append)
            with e1 \<open>k < n\<close> show "new ! (lo + k) = []" by simp
          qed
          moreover from b2 have "lo + n \<le> length texts" by simp
          ultimately show ?thesis by blast
        next
          assume "\<exists>lo'. lo = ?m + lo'
                    \<and> (lo', n) \<in> set (degraded_segments model fuel 0 (drop ?m texts) target_lang st2)"
          then obtain lo' where lo: "lo = ?m + lo'"
            and s2: "(lo', n) \<in> set (degraded_segments model fuel 0 (drop ?m texts) target_lang st2)"
            by blast
          from Suc.IH [OF h2' s2]
          have b1: "lo' + n \<le> length (drop ?m texts)" and e1: "\<forall>k < n. b ! (lo' + k) = []"
            by simp_all
          have "\<forall>k < n. new ! (lo + k) = []"
          proof (intro allI impI)
            fix k assume "k < n"
            have "new ! (lo + k) = b ! (lo' + k)"
              unfolding ab lo using la by (simp add: nth_append add.assoc)
            with e1 \<open>k < n\<close> show "new ! (lo + k) = []" by simp
          qed
          moreover from b1 lo have "lo + n \<le> length texts" by simp
          ultimately show ?thesis by blast
        qed
      next
        case nomatch: False
        with Suc.prems na tb RaiseValueError show ?thesis by auto
      qed
    next
      case (RaiseException e)
      with Suc.prems na tb show ?thesis
        by (auto simp: Let_def split: if_splits dest: Suc.IH)
    qed
  qed
qed

lemma degraded_segments_branch:
  assumes "model (remote st) texts target_lang = (RaiseValueError e, r)"
    and "\<not> sublist COUNT_MISMATCH e"
    and "attempt < MAX_RETRIES"
  shows "degraded_segments model (Suc fuel) attempt texts target_lang st = [(0, length texts)]"
proof -
  from assms(3) have a: "\<not> MAX_RETRIES \<le> attempt" by simp
  show ?thesis
    using assms(1,2) a by (simp add: generate_content_def try_block_def)
qed

text \<open>
  Claim C9, as the code has it. In any call and at any attempt, a request that raises a
  \<open>ValueError\<close> without the count-mismatch message makes \<open>_call_translation_api\<close> return
  \<open>[""] * n\<close> at once, and that call is a degraded segment. Let the call that
  \<open>translate_batch\<close> makes on its uncached texts return a list, and let \<open>(lo, n)\<close> be a
  segment of the uncached texts on which a call of the recursion, the outermost one or any
  half of a split, returned through that branch. Then the list holds \<open>""\<close> at every
  position of the segment, \<open>translate_batch\<close> returns a list, and its store loop writes
  \<open>""\<close> under the key of every text of the segment, in the order of the uncached texts.
  For every text of the segment that does not occur again later among the uncached texts
  of the call, the entry is \<open>""\<close> when the call returns, and every later call on such
  texts, with any service, returns \<open>""\<close> for each of them and leaves the translator
  unchanged.
\<close>

theorem degraded_subcall_caches_empty_strings:
  assumes u: "filter (uncached (translation_cache st) target_lang) (map preprocess_text texts) = uts"
    and ne: "uts \<noteq> []"
    and call: "call_translation_api model fuel 0 uts target_lang st = Some (Inr (Some new), st1)"
    and seg: "(lo, n) \<in> set (degraded_segments model fuel 0 uts target_lang st)"
  shows "(\<forall>s txs e r attempt bound.
            model (remote s) txs target_lang = (RaiseValueError e, r)
            \<and> \<not> sublist COUNT_MISMATCH e \<and> attempt < MAX_RETRIES
            \<longrightarrow> call_translation_api model (Suc bound) attempt txs target_lang s
                  = Some (Inr (Some (replicate (length txs) [])),
                          s\<lparr>remote := r, events := events s @ [Request txs target_lang]\<rparr>)
                \<and> degraded_segments model (Suc bound) attempt txs target_lang s
                  = [(0, length txs)])
    \<and> lo + n \<le> length uts
    \<and> length new = length uts
    \<and> (\<forall>k < n. new ! (lo + k) = [])
    \<and> (\<exists>res st'.
          translate_batch model fuel texts target_lang st = Some (Inr res, st')
        \<and> translation_cache st' = write_cache target_lang (translation_cache st) (zip uts new)
        \<and> (\<forall>k < n. zip uts new ! (lo + k) = (uts ! (lo + k), []))
        \<and> (\<forall>k < n. uts ! (lo + k) \<notin> set (drop (Suc (lo + k)) uts)
              \<longrightarrow> translation_cache st' (uts ! (lo + k), target_lang) = Some [])
        \<and> (\<forall>other later fuel_later.
              later \<noteq> []
              \<and> (\<forall>t \<in> set later. \<exists>k < n. preprocess_text t = uts ! (lo + k)
                                       \<and> uts ! (lo + k) \<notin> set (drop (Suc (lo + k)) uts))
              \<longrightarrow> translate_batch other fuel_later later target_lang st'
                  = Some (Inr (replicate (length later) (Some [])), st')))"
proof -
  let ?c = "translation_cache st"
  let ?pts = "map preprocess_text texts"
  let ?P = "uncached ?c target_lang"
  let ?uis = "map fst (filter (\<lambda>(j, t). ?P t) (enumerate 0 ?pts))"
  define st' where "st' = st1\<lparr>translation_cache := write_cache target_lang ?c (zip uts new)\<rparr>"
  define res where "res = write_slots (map (\<lambda>t. ?c (preprocess_text t, target_lang)) texts)
                            (zip ?uis new)"
  have branch: "\<forall>s txs e r attempt bound.
            model (remote s) txs target_lang = (RaiseValueError e, r)
            \<and> \<not> sublist COUNT_MISMATCH e \<and> attempt < MAX_RETRIES
            \<longrightarrow> call_translation_api model (Suc bound) attempt txs target_lang s
                  = Some (Inr (Some (replicate (length txs) [])),
                          s\<lparr>remote := r, events := events s @ [Request txs target_lang]\<rparr>)
                \<and> degraded_segments model (Suc bound) attempt txs target_lang s
                  = [(0, length txs)]"
    by (intro allI impI conjI; elim conjE)
       (rule call_translation_api_degraded, assumption+,
        rule degraded_segments_branch, assumption+)
  from degraded_segments_empty_strings [OF call seg]
  have bound: "lo + n \<le> length uts" and empty: "\<forall>k < n. new ! (lo + k) = []"
    by simp_all
  have len: "length new = length uts"
    by (rule call_translation_api_length [OF call])
  have ne': "filter ?P ?pts \<noteq> []"
    using u ne by simp
  have tb: "translate_batch model fuel texts target_lang st = Some (Inr res, st')"
    using translate_batch_succeeded [OF ne' call [folded u]] unfolding st'_def res_def u by simp
  have ca: "translation_cache st' = write_cache target_lang ?c (zip uts new)"
    by (simp add: st'_def)
  have pairs: "\<forall>k < n. zip uts new ! (lo + k) = (uts ! (lo + k), [])"
    using bound len empty by simp
  have kept: "\<forall>k < n. uts ! (lo + k) \<notin> set (drop (Suc (lo + k)) uts)
              \<longrightarrow> translation_cache st' (uts ! (lo + k), target_lang) = Some []"
  proof (intro allI impI)
    fix k assume k: "k < n" and l: "uts ! (lo + k) \<notin> set (drop (Suc (lo + k)) uts)"
    from k bound have "lo + k < length uts" by simp
    from write_cache_last_occurrence [OF this len l, of target_lang ?c] empty k
    show "translation_cache st' (uts ! (lo + k), target_lang) = Some []"
      by (simp add: ca)
  qed
  have later: "\<forall>other later fuel_later.
              later \<noteq> []
              \<and> (\<forall>t \<in> set later. \<exists>k < n. preprocess_text t = uts ! (lo + k)
                                       \<and> uts ! (lo + k) \<notin> set (drop (Suc (lo + k)) uts))
              \<longrightarrow> translate_batch other fuel_later later target_lang st'
                  = Some (Inr (replicate (length later) (Some [])), st')"
  proof (intro allI impI)
    fix other :: "'a model" and later :: "string list" and fuel_later
    assume a: "later \<noteq> []
              \<and> (\<forall>t \<in> set later. \<exists>k < n. preprocess_text t = uts ! (lo + k)
                                       \<and> uts ! (lo + k) \<notin> set (drop (Suc (lo + k)) uts))"
    have all: "\<forall>t \<in> set later. translation_cache st' (preprocess_text t, target_lang) = Some []"
    proof
      fix t assume "t \<in> set later"
      with a obtain k where "k < n" "preprocess_text t = uts ! (lo + k)"
        "uts ! (lo + k) \<notin> set (drop (Suc (lo + k)) uts)"
        by blast
      with kept show "translation_cache st' (preprocess_text t, target_lang) = Some []"
        by simp
    qed
    then have "\<forall>t \<in> set later. translation_cache st' (preprocess_text t, target_lang) \<noteq> None"
      by simp
    from translate_batch_cached_general [OF _ this, of other fuel_later] a
    have "translate_batch other fuel_later later target_lang st'
        = Some (Inr (map (\<lambda>t. translation_cache st' (preprocess_text t, target_lang)) later), st')"
      by simp
    moreover have "map (\<lambda>t. translation_cache st' (preprocess_text t, target_lang)) later
        = replicate (length later) (Some [])"
      using all by (intro map_constant) simp
    ultimately show "translate_batch other fuel_later later target_lang st'
                  = Some (Inr (replicate (length later) (Some [])), st')"
      by simp
  qed
  have ex: "\<exists>res st'.
          translate_batch model fuel texts target_lang st = Some (Inr res, st')
        \<and> translation_cache st' = write_cache target_lang (translation_cache st) (zip uts new)
        \<and> (\<forall>k < n. zip uts new ! (lo + k) = (uts ! (lo + k), []))
        \<and> (\<forall>k < n. uts ! (lo + k) \<notin> set (drop (Suc (lo + k)) uts)
              \<longrightarrow> translation_cache st' (uts ! (lo + k), target_lang) = Some [])
        \<and> (\<forall>other later fuel_later.
              later \<noteq> []
              \<and> (\<forall>t \<in> set later. \<exists>k < n. preprocess_text t = uts ! (lo + k)
                                       \<and> uts ! (lo + k) \<notin> set (drop (Suc (lo + k)) uts))
              \<longrightarrow> translate_batch other fuel_later later target_lang st'
                  = Some (Inr (replicate (length later) (Some [])), st'))"
    by (intro exI [of _ res] exI [of _ st'] conjI) (rule tb ca pairs kept later)+
  show ?thesis
    by (intro conjI) (rule branch bound len empty ex)+
qed

text \<open>
  The theorem at \<open>translate_batch(["a", "b"], "French")\<close> on a fresh translator with a
  service that answers one element short, then translates \<open>"a"\<close>, then answers \<open>"b"\<close>
  with text that is not JSON: only the second half degrades, the result is
  \<open>["T:a", ""]\<close>, and \<open>""\<close> is cached for \<open>"b"\<close>.
\<close>

theorem degraded_subcall_caches_empty_strings_witness:
  "filter (uncached (translation_cache (init [Too_short, Translated, Unparseable])) ''French'')
      (map preprocess_text [''a'', ''b'']) = [''a'', ''b'']
   \<and> map_option fst
        (call_translation_api scripted 2 0 [''a'', ''b''] ''French''
           (init [Too_short, Translated, Unparseable]))
       = Some (Inr (Some [''T:a'', []]))
   \<and> (1, 1) \<in> set (degraded_segments scripted 2 0 [''a'', ''b''] ''French''
                       (init [Too_short, Translated, Unparseable]))
   \<and> (\<exists>res st'.
         translate_batch scripted 2 [''a'', ''b''] ''French''
           (init [Too_short, Translated, Unparseable]) = Some (Inr res, st')
       \<and> translation_cache st' (''b'', ''French'') = Some []
       \<and> translate_batch scripted 0 [''b''] ''French'' st' = Some (Inr [Some []], st'))"
proof -
  note p = preprocess_text_a_b
  let ?st = "init [Too_short, Translated, Unparseable]"
  have u: "filter (uncached (translation_cache ?st) ''French'')
      (map preprocess_text [''a'', ''b'']) = [''a'', ''b'']"
    by (simp add: p init_def uncached_def)
  have ne: "[''a'', ''b''] \<noteq> ([] :: string list)"
    by simp
  have c0: "map_option fst (call_translation_api scripted 2 0 [''a'', ''b''] ''French'' ?st)
       = Some (Inr (Some [''T:a'', []]))"
    by code_simp
  then obtain st1 where
    call: "call_translation_api scripted 2 0 [''a'', ''b''] ''French'' ?st
             = Some (Inr (Some [''T:a'', []]), st1)"
    by auto
  have seg: "(1, 1) \<in> set (degraded_segments scripted 2 0 [''a'', ''b''] ''French'' ?st)"
    by code_simp
  note inst = degraded_subcall_caches_empty_strings
         [where model = scripted and st = ?st and target_lang = "''French''"
            and texts = "[''a'', ''b'']" and uts = "[''a'', ''b'']" and fuel = 2
            and new = "[''T:a'', []]" and ?st1.0 = st1 and lo = 1 and n = 1,
          OF u ne call seg]
  note ex = inst [THEN conjunct2, THEN conjunct2, THEN conjunct2, THEN conjunct2]
  from ex obtain res st' where
    all: "translate_batch scripted 2 [''a'', ''b''] ''French'' ?st = Some (Inr res, st')
        \<and> translation_cache st'
            = write_cache ''French'' (translation_cache ?st) (zip [''a'', ''b''] [''T:a'', []])
        \<and> (\<forall>k < 1. zip [''a'', ''b''] [''T:a'', []] ! (1 + k) = ([''a'', ''b''] ! (1 + k), []))
        \<and> (\<forall>k < 1. [''a'', ''b''] ! (1 + k) \<notin> set (drop (Suc (1 + k)) [''a'', ''b''])
              \<longrightarrow> translation_cache st' ([''a'', ''b''] ! (1 + k), ''French'') = Some [])
        \<and> (\<forall>other later fuel_later.
              later \<noteq> []
              \<and> (\<forall>t \<in> set later. \<exists>k < 1. preprocess_text t = [''a'', ''b''] ! (1 + k)
                      \<and> [''a'', ''b''] ! (1 + k) \<notin> set (drop (Suc (1 + k)) [''a'', ''b'']))
              \<longrightarrow> translate_batch other fuel_later later ''French'' st'
                  = Some (Inr (replicate (length later) (Some [])), st'))"
    by (elim exE)
  note tb = all [THEN conjunct1]
  note kept = all [THEN conjunct2, THEN conjunct2, THEN conjunct2, THEN conjunct1]
  note later = all [THEN conjunct2, THEN conjunct2, THEN conjunct2, THEN conjunct2]
  from kept [rule_format, of 0] have r2: "translation_cache st' (''b'', ''French'') = Some []"
    by simp
  from later [rule_format, of "[''b'']" scripted 0]
  have r3: "translate_batch scripted 0 [''b''] ''French'' st' = Some (Inr [Some []], st')"
    by (simp add: p)
  from tb r2 r3 have "\<exists>res st'.
         translate_batch scripted 2 [''a'', ''b''] ''French'' ?st = Some (Inr res, st')
       \<and> translation_cache st' (''b'', ''French'') = Some []
       \<and> translate_batch scripted 0 [''b''] ''French'' st' = Some (Inr [Some []], st')"
    by blast
  with u c0 seg show ?thesis by (intro conjI)
qed

text \<open>
  The claim C9 as it is written fails for a text that occurs twice: for
  \<open>translate_batch(["a", "a"], "French")\<close> with a service that answers one element
  short, then text that is not JSON, then the translation, the first half degrades to
  \<open>[""]\<close> and the second half returns \<open>["T:a"]\<close>; the store loop writes \<open>""\<close> and then
  \<open>"T:a"\<close> under the same key, so a later call on \<open>"a"\<close> returns \<open>"T:a"\<close>, not \<open>""\<close>.
\<close>

theorem later_duplicate_overwrites_degraded_entry:
  "(0, 1) \<in> set (degraded_segments scripted 2 0 [''a'', ''a''] ''French''
                     (init [Too_short, Unparseable, Translated]))
   \<and> map_option fst
        (translate_batch scripted 2 [''a'', ''a''] ''French''
           (init [Too_short, Unparseable, Translated]))
       = Some (Inr [Some [], Some ''T:a''])
   \<and> map_option fst
        (translate_batch scripted 0 [''a''] ''French''
           (snd (the (translate_batch scripted 2 [''a'', ''a''] ''French''
                        (init [Too_short, Unparseable, Translated])))))
       = Some (Inr [Some ''T:a''])
   \<and> map_option fst
        (translate_batch scripted 0 [''a''] ''French''
           (snd (the (translate_batch scripted 2 [''a'', ''a''] ''French''
                        (init [Too_short, Unparseable, Translated])))))
       \<noteq> Some (Inr [Some []])"
proof -
  let ?st = "init [Too_short, Unparseable, Translated]"
  have a: "(0, 1) \<in> set (degraded_segments scripted 2 0 [''a'', ''a''] ''French'' ?st)"
    by code_simp
  have b: "map_option fst (translate_batch scripted 2 [''a'', ''a''] ''French'' ?st)
       = Some (Inr [Some [], Some ''T:a''])"
    by code_simp
  have c: "map_option fst
        (translate_batch scripted 0 [''a''] ''French''
           (snd (the (translate_batch scripted 2 [''a'', ''a''] ''French'' ?st))))
       = Some (Inr [Some ''T:a''])"
    by code_simp
  show ?thesis unfolding c using a b by simp
qed

end
